theory Spec2Isabelle
  imports Main "HOL-Library.Word"
begin

section \<open>Audio chunks, exceptions and the voice command segmenter\<close>

text \<open>
  An audio chunk is a Python \<^verbatim>\<open>bytes\<close> object. Exceptions are values: a function that can
  raise returns \<open>exn + 'a\<close>, with \<open>Inl\<close> for the exception.
\<close>

type_synonym bytes = "8 word list"

datatype exn = TimeoutError | KeyError string | TypeError | PipelineError string

text \<open>
  \<^verbatim>\<open>VoiceCommandSegmenter\<close> is imported from \<^verbatim>\<open>assist_pipeline.vad\<close>; \<^verbatim>\<open>_segment_audio\<close> uses its
  constructor, \<^verbatim>\<open>process(chunk)\<close> (which mutates the segmenter and returns a bool) and the
  attribute \<^verbatim>\<open>in_command\<close>. The segmenter is a parameter of the model: any state type \<open>'seg\<close>
  with these three operations.
\<close>

record 'seg VoiceCommandSegmenter =
  new_segmenter :: 'seg
  process :: "'seg \<Rightarrow> bytes \<Rightarrow> bool \<times> 'seg"
  in_command :: "'seg \<Rightarrow> bool"

section \<open>The look-back buffer: \<^verbatim>\<open>deque(maxlen=_BUFFERED_CHUNKS_BEFORE_SPEECH)\<close>\<close>

definition BUFFERED_CHUNKS_BEFORE_SPEECH :: nat where
  "BUFFERED_CHUNKS_BEFORE_SPEECH = 100"

text \<open>
  \<^verbatim>\<open>deque.append\<close> on a bounded deque: nothing is stored when \<^verbatim>\<open>maxlen\<close> is 0; otherwise the
  item is appended on the right and, when the deque is then longer than \<^verbatim>\<open>maxlen\<close>, the
  leftmost item is dropped.
\<close>

definition deque_append :: "nat \<Rightarrow> 'a list \<Rightarrow> 'a \<Rightarrow> 'a list" where
  "deque_append maxlen d x =
     (if maxlen = 0 then d
      else if maxlen < length (d @ [x]) then tl (d @ [x])
      else d @ [x])"

section \<open>\<^verbatim>\<open>_segment_audio\<close>\<close>

text \<open>
  One pass of the loop for a chunk that \<^verbatim>\<open>self._audio_queue.get()\<close> returned: the test
  \<^verbatim>\<open>while chunk\<close> followed by the loop body. \<open>None\<close> means that the loop is left (the chunk is
  empty, or \<^verbatim>\<open>segmenter.process\<close> returned false); otherwise the result holds the chunks
  yielded in this pass, the segmenter and the look-back buffer after it.
\<close>

definition segment_step ::
  "'seg VoiceCommandSegmenter \<Rightarrow> 'seg \<Rightarrow> bytes list \<Rightarrow> bytes \<Rightarrow> (bytes list \<times> 'seg \<times> bytes list) option"
where
  "segment_step V seg chunk_buffer chunk =
     (if chunk = [] then None
      else case process V seg chunk of (ok, seg') \<Rightarrow>
        if \<not> ok then None
        else if in_command V seg' then
          (if chunk_buffer \<noteq> [] then Some (chunk_buffer @ [chunk], seg', [])
           else Some ([chunk], seg', chunk_buffer))
        else Some ([], seg', deque_append BUFFERED_CHUNKS_BEFORE_SPEECH chunk_buffer chunk))"

text \<open>
  The generator, run to its end. The last argument is the sequence of chunks that the
  successive calls of \<^verbatim>\<open>self._audio_queue.get()\<close> return within \<^verbatim>\<open>audio_timeout\<close>; once it is
  used up, the next \<^verbatim>\<open>get\<close> times out and \<^verbatim>\<open>asyncio.TimeoutError\<close> is raised. The result is
  the list of yielded chunks and how the generator finished: \<open>Inr ()\<close> for a normal return,
  \<open>Inl TimeoutError\<close> for the exception.
\<close>

fun segment_loop ::
  "'seg VoiceCommandSegmenter \<Rightarrow> 'seg \<Rightarrow> bytes list \<Rightarrow> bytes list \<Rightarrow> bytes list \<times> (exn + unit)"
where
  "segment_loop V seg chunk_buffer [] = ([], Inl TimeoutError)"
| "segment_loop V seg chunk_buffer (chunk # queue) =
     (case segment_step V seg chunk_buffer chunk of
        None \<Rightarrow> ([], Inr ())
      | Some (yielded, seg', chunk_buffer') \<Rightarrow>
          (case segment_loop V seg' chunk_buffer' queue of
             (later, r) \<Rightarrow> (yielded @ later, r)))"

definition segment_audio ::
  "'seg VoiceCommandSegmenter \<Rightarrow> bytes list \<Rightarrow> bytes list \<times> (exn + unit)"
where
  "segment_audio V queue = segment_loop V (new_segmenter V) [] queue"

text \<open>
  The same loop, observed: the segmenter and the look-back buffer after every completed
  pass. The source reads \<^verbatim>\<open>segmenter.in_command\<close> once in each completed pass, so the values it
  reads are \<open>in_command V\<close> of the segmenters listed here.
\<close>

fun loop_states ::
  "'seg VoiceCommandSegmenter \<Rightarrow> 'seg \<Rightarrow> bytes list \<Rightarrow> bytes list \<Rightarrow> ('seg \<times> bytes list) list"
where
  "loop_states V seg chunk_buffer [] = []"
| "loop_states V seg chunk_buffer (chunk # queue) =
     (case segment_step V seg chunk_buffer chunk of
        None \<Rightarrow> []
      | Some (yielded, seg', chunk_buffer') \<Rightarrow>
          (seg', chunk_buffer') # loop_states V seg' chunk_buffer' queue)"

definition in_command_reads :: "'seg VoiceCommandSegmenter \<Rightarrow> bytes list \<Rightarrow> bool list" where
  "in_command_reads V queue =
     map (\<lambda>(seg, chunk_buffer). in_command V seg) (loop_states V (new_segmenter V) [] queue)"

definition chunk_buffers :: "'seg VoiceCommandSegmenter \<Rightarrow> bytes list \<Rightarrow> bytes list list" where
  "chunk_buffers V queue = map snd (loop_states V (new_segmenter V) [] queue)"

text \<open>
  A small segmenter for concrete runs: a chunk whose first byte is not 0 is speech. Speech
  starts the command, silence during the command ends it.
\<close>

datatype vad_state = NotStarted | InCommand | CommandEnded

fun vad_process :: "vad_state \<Rightarrow> bytes \<Rightarrow> bool \<times> vad_state" where
  "vad_process NotStarted c = (if hd c \<noteq> 0 then (True, InCommand) else (True, NotStarted))"
| "vad_process InCommand c = (if hd c \<noteq> 0 then (True, InCommand) else (False, CommandEnded))"
| "vad_process CommandEnded c = (False, CommandEnded)"

definition byte_vad :: "vad_state VoiceCommandSegmenter" where
  "byte_vad = \<lparr>new_segmenter = NotStarted, process = vad_process,
               in_command = (\<lambda>s. s = InCommand)\<rparr>"

text \<open>A segmenter that never ends the command and reports \<^verbatim>\<open>in_command\<close> from the start.\<close>

definition always_in_command :: "unit VoiceCommandSegmenter" where
  "always_in_command = \<lparr>new_segmenter = (), process = (\<lambda>s c. (True, s)),
                        in_command = (\<lambda>s. True)\<rparr>"

section \<open>Pipeline events\<close>

text \<open>
  The payload of a \<^verbatim>\<open>PipelineEvent\<close> is \<^verbatim>\<open>dict[str, Any] | None\<close>. The values that
  \<^verbatim>\<open>_event_callback\<close> can meet are modelled by \<open>pyval\<close>; a dict is an association list read
  with \<open>map_of\<close>. Subscripting a dict with a missing key raises \<^verbatim>\<open>KeyError\<close>, subscripting
  \<^verbatim>\<open>None\<close> or a string with a string raises \<^verbatim>\<open>TypeError\<close>.
\<close>

datatype pyval = PyNone | PyStr string | PyDict "(string \<times> pyval) list"

fun getitem :: "pyval \<Rightarrow> string \<Rightarrow> exn + pyval" where
  "getitem (PyDict d) k = (case map_of d k of None \<Rightarrow> Inl (KeyError k) | Some v \<Rightarrow> Inr v)"
| "getitem PyNone k = Inl TypeError"
| "getitem (PyStr s) k = Inl TypeError"

text \<open>
  \<^verbatim>\<open>PipelineEventType\<close> is an enum of \<^verbatim>\<open>assist_pipeline\<close>; the callback compares the type
  with \<^verbatim>\<open>INTENT_END\<close> and \<^verbatim>\<open>TTS_END\<close> only, every other member is \<open>OtherEventType\<close>.
\<close>

datatype PipelineEventType = INTENT_END | TTS_END | OtherEventType string

record PipelineEvent =
  event_type :: PipelineEventType
  event_data :: "(string \<times> pyval) list option"

section \<open>The call session: \<^verbatim>\<open>PipelineRtpDatagramProtocol\<close>\<close>

text \<open>
  Background tasks live in the event loop of \<^verbatim>\<open>hass\<close>: \<^verbatim>\<open>async_create_background_task\<close>
  registers a coroutine under a fresh handle and returns the handle at once; the coroutine
  starts later. Calls to the collaborators outside this class (the transport, the pipeline
  engine, the media resolver, \<^verbatim>\<open>send_audio\<close> of the base class) are recorded in order in
  \<open>calls\<close>.
\<close>

datatype coroutine = RunPipeline | SendMedia pyval

record task =
  task_id :: nat
  task_coro :: coroutine
  task_name :: string
  task_started :: bool

datatype call =
    TransportClose nat
  | PipelineFromAudioStream pyval
  | GetMediaSourceAudio pyval
  | SendAudio bytes nat nat nat

record session =
  transport :: "nat option"
  voip_device_is_active :: bool
  audio_queue :: "bytes list"
  pipeline_task :: "nat option"
  conversation_id :: pyval
  hass_tasks :: "task list"
  hass_next_task :: nat
  calls :: "call list"

text \<open>\<^verbatim>\<open>__init__\<close>: the base class starts without a transport.\<close>

definition init :: session where
  "init = \<lparr>transport = None, voip_device_is_active = False, audio_queue = [],
           pipeline_task = None, conversation_id = PyNone, hass_tasks = [],
           hass_next_task = 0, calls = []\<rparr>"

text \<open>
  \<^verbatim>\<open>connection_made\<close> and \<^verbatim>\<open>connection_lost\<close>: the base class method of \<^verbatim>\<open>voip_utils\<close> keeps the
  transport in \<^verbatim>\<open>self.transport\<close>; the device is marked active or inactive.
\<close>

definition connection_made :: "session \<Rightarrow> nat \<Rightarrow> session" where
  "connection_made s tr = s\<lparr>transport := Some tr, voip_device_is_active := True\<rparr>"

definition connection_lost :: "session \<Rightarrow> session" where
  "connection_lost s = s\<lparr>voip_device_is_active := False\<rparr>"

definition async_create_background_task :: "session \<Rightarrow> coroutine \<Rightarrow> string \<Rightarrow> nat \<times> session" where
  "async_create_background_task s coro name =
     (hass_next_task s,
      s\<lparr>hass_tasks := hass_tasks s @
           [\<lparr>task_id = hass_next_task s, task_coro = coro, task_name = name,
             task_started = False\<rparr>],
        hass_next_task := Suc (hass_next_task s)\<rparr>)"

text \<open>\<^verbatim>\<open>_clear_audio_queue\<close>: \<^verbatim>\<open>get_nowait\<close> until the queue is empty.\<close>

fun clear_loop :: "bytes list \<Rightarrow> bytes list" where
  "clear_loop [] = []"
| "clear_loop (chunk # queue) = clear_loop queue"

definition clear_audio_queue :: "session \<Rightarrow> session" where
  "clear_audio_queue s = s\<lparr>audio_queue := clear_loop (audio_queue s)\<rparr>"

definition on_chunk :: "session \<Rightarrow> bytes \<Rightarrow> session" where
  "on_chunk s audio_bytes =
     (let s1 = (if pipeline_task s = None then
                  (case async_create_background_task (clear_audio_queue s) RunPipeline
                          ''voip_pipeline_run'' of
                     (t, s') \<Rightarrow> s'\<lparr>pipeline_task := Some t\<rparr>)
                else s)
      in s1\<lparr>audio_queue := audio_queue s1 @ [audio_bytes]\<rparr>)"

text \<open>
  \<^verbatim>\<open>if self.transport is not None: self.transport.close(); self.transport = None\<close>, as both
  timeout handlers have it.
\<close>

definition close_transport :: "session \<Rightarrow> session" where
  "close_transport s =
     (case transport s of
        None \<Rightarrow> s
      | Some tr \<Rightarrow> s\<lparr>transport := None, calls := calls s @ [TransportClose tr]\<rparr>)"

text \<open>
  \<^verbatim>\<open>_run_pipeline\<close> in two steps. When the coroutine starts it calls
  \<^verbatim>\<open>async_pipeline_from_audio_stream\<close> with \<^verbatim>\<open>conversation_id=self._conversation_id\<close>. The
  awaited call under \<^verbatim>\<open>async_timeout.timeout(self.pipeline_timeout)\<close> then ends in one of
  three ways, the argument of \<open>run_pipeline_exit\<close>: it returns (\<open>Inr ()\<close>), the timeout
  expires (\<open>Inl TimeoutError\<close>), or the pipeline raises another exception. The result is
  what \<^verbatim>\<open>_run_pipeline\<close> itself returns or raises, and the session after \<^verbatim>\<open>finally\<close>.
\<close>

definition run_pipeline_invoke :: "session \<Rightarrow> session" where
  "run_pipeline_invoke s = s\<lparr>calls := calls s @ [PipelineFromAudioStream (conversation_id s)]\<rparr>"

definition run_pipeline_exit :: "session \<Rightarrow> exn + unit \<Rightarrow> (exn + unit) \<times> session" where
  "run_pipeline_exit s r =
     (case r of
        Inr u \<Rightarrow> (Inr (), s\<lparr>pipeline_task := None\<rparr>)
      | Inl TimeoutError \<Rightarrow> (Inr (), (close_transport s)\<lparr>pipeline_task := None\<rparr>)
      | Inl e \<Rightarrow> (Inl e, s\<lparr>pipeline_task := None\<rparr>))"

text \<open>
  \<^verbatim>\<open>stt_stream\<close>: the chunks of \<^verbatim>\<open>_segment_audio\<close> are passed on; \<^verbatim>\<open>asyncio.TimeoutError\<close> is
  caught and the transport closed; \<^verbatim>\<open>finally\<close> clears the queue. \<open>stt_stream_exit\<close> is the
  effect on the session when \<^verbatim>\<open>_segment_audio\<close> has finished with \<open>r\<close>.
\<close>

definition stt_stream_exit :: "session \<Rightarrow> exn + unit \<Rightarrow> (exn + unit) \<times> session" where
  "stt_stream_exit s r =
     (case r of
        Inr u \<Rightarrow> (Inr (), clear_audio_queue s)
      | Inl TimeoutError \<Rightarrow> (Inr (), clear_audio_queue (close_transport s))
      | Inl e \<Rightarrow> (Inl e, clear_audio_queue s))"

definition stt_stream ::
  "'seg VoiceCommandSegmenter \<Rightarrow> session \<Rightarrow> bytes list \<Rightarrow> bytes list \<times> (exn + unit) \<times> session"
where
  "stt_stream V s queue =
     (case segment_audio V queue of (chunks, r) \<Rightarrow> (chunks, stt_stream_exit s r))"

text \<open>\<^verbatim>\<open>_event_callback\<close>. \<^verbatim>\<open>not event.data\<close> holds for \<^verbatim>\<open>None\<close> and for the empty dict.\<close>

definition event_callback :: "session \<Rightarrow> PipelineEvent \<Rightarrow> exn + session" where
  "event_callback s event =
     (case event_data event of
        None \<Rightarrow> Inr s
      | Some d \<Rightarrow>
          if d = [] then Inr s
          else if event_type event = INTENT_END then
            (case getitem (PyDict d) ''intent_output'' of
               Inl e \<Rightarrow> Inl e
             | Inr intent_output \<Rightarrow>
                 (case getitem intent_output ''conversation_id'' of
                    Inl e \<Rightarrow> Inl e
                  | Inr c \<Rightarrow> Inr (s\<lparr>conversation_id := c\<rparr>)))
          else if event_type event = TTS_END then
            (case getitem (PyDict d) ''tts_output'' of
               Inl e \<Rightarrow> Inl e
             | Inr tts_output \<Rightarrow>
                 (case getitem tts_output ''media_id'' of
                    Inl e \<Rightarrow> Inl e
                  | Inr media_id \<Rightarrow>
                      Inr (snd (async_create_background_task s (SendMedia media_id)
                                  ''voip_pipeline_tts''))))
          else Inr s)"

text \<open>
  \<^verbatim>\<open>_send_media\<close>. The media resolver \<^verbatim>\<open>tts.async_get_media_source_audio\<close> is a parameter: it
  returns the extension and the audio bytes, or raises.
\<close>

definition send_media ::
  "(pyval \<Rightarrow> exn + string \<times> bytes) \<Rightarrow> session \<Rightarrow> pyval \<Rightarrow> (exn + unit) \<times> session"
where
  "send_media resolve s media_id =
     (case transport s of
        None \<Rightarrow> (Inr (), s)
      | Some tr \<Rightarrow>
          (let s1 = s\<lparr>calls := calls s @ [GetMediaSourceAudio media_id]\<rparr> in
           case resolve media_id of
             Inl e \<Rightarrow> (Inl e, s1)
           | Inr (extension, audio_bytes) \<Rightarrow>
               (Inr (), s1\<lparr>calls := calls s1 @ [SendAudio audio_bytes 16000 2 1]\<rparr>)))"

section \<open>The call as a sequence of atomic steps\<close>

text \<open>
  The event loop is single threaded: the callbacks of the transport, the start of a created
  task, and each stretch of a coroutine between two awaits run one after the other. An
  event that names a task applies only when the event loop holds that task in the right
  phase; otherwise it cannot happen and the step leaves the session as it is.
  \<^item> \<open>ConnectionMade\<close>, \<open>ConnectionLost\<close>, \<open>OnChunk\<close>: the transport calls the protocol.
  \<^item> \<open>TaskStart t\<close>: the event loop starts the created task \<open>t\<close>. A pipeline run calls the
    pipeline engine and stays in the event loop; \<^verbatim>\<open>_send_media\<close> runs to its end and its task
    is gone.
  \<^item> \<open>QueueGet t\<close>: \<^verbatim>\<open>_segment_audio\<close> of run \<open>t\<close> takes the next chunk from the queue.
  \<^item> \<open>SttStreamExit t r\<close>: \<^verbatim>\<open>_segment_audio\<close> of run \<open>t\<close> has finished with \<open>r\<close>, and
    \<^verbatim>\<open>stt_stream\<close> handles that.
  \<^item> \<open>SttStreamFinalize\<close>: an \<^verbatim>\<open>stt_stream\<close> generator that the pipeline engine left
    unfinished is closed, and its \<^verbatim>\<open>finally\<close> clears the queue. The generator is not
    bound to the task of its run, so this can happen at any time, also after the run has
    finished.
  \<^item> \<open>Callback t ev\<close>: the pipeline engine of run \<open>t\<close> calls \<^verbatim>\<open>_event_callback\<close>. An
    exception of the callback goes to the pipeline engine; the session is as before.
  \<^item> \<open>RunExit t r\<close>: the awaited pipeline call of run \<open>t\<close> ends with \<open>r\<close>; \<^verbatim>\<open>_run_pipeline\<close>
    handles that, finishes, and its task is gone.
\<close>

datatype event =
    ConnectionMade nat
  | ConnectionLost
  | OnChunk bytes
  | TaskStart nat
  | QueueGet nat
  | SttStreamExit nat "exn + unit"
  | SttStreamFinalize
  | Callback nat PipelineEvent
  | RunExit nat "exn + unit"

definition find_task :: "session \<Rightarrow> nat \<Rightarrow> task option" where
  "find_task s t = find (\<lambda>k. task_id k = t) (hass_tasks s)"

definition start_task :: "session \<Rightarrow> nat \<Rightarrow> session" where
  "start_task s t =
     s\<lparr>hass_tasks := map (\<lambda>k. if task_id k = t then k\<lparr>task_started := True\<rparr> else k)
                            (hass_tasks s)\<rparr>"

definition remove_task :: "session \<Rightarrow> nat \<Rightarrow> session" where
  "remove_task s t = s\<lparr>hass_tasks := filter (\<lambda>k. task_id k \<noteq> t) (hass_tasks s)\<rparr>"

definition running_run :: "session \<Rightarrow> nat \<Rightarrow> bool" where
  "running_run s t =
     (case find_task s t of
        None \<Rightarrow> False
      | Some k \<Rightarrow> task_coro k = RunPipeline \<and> task_started k)"

fun step :: "(pyval \<Rightarrow> exn + string \<times> bytes) \<Rightarrow> session \<Rightarrow> event \<Rightarrow> session" where
  "step R s (ConnectionMade tr) = connection_made s tr"
| "step R s ConnectionLost = connection_lost s"
| "step R s (OnChunk audio_bytes) = on_chunk s audio_bytes"
| "step R s (TaskStart t) =
     (case find_task s t of
        None \<Rightarrow> s
      | Some k \<Rightarrow>
          if task_started k then s
          else (case task_coro k of
                  RunPipeline \<Rightarrow> run_pipeline_invoke (start_task s t)
                | SendMedia media_id \<Rightarrow> remove_task (snd (send_media R s media_id)) t))"
| "step R s (QueueGet t) =
     (if running_run s t \<and> audio_queue s \<noteq> [] then s\<lparr>audio_queue := tl (audio_queue s)\<rparr>
      else s)"
| "step R s (SttStreamExit t r) =
     (if running_run s t then snd (stt_stream_exit s r) else s)"
| "step R s SttStreamFinalize = clear_audio_queue s"
| "step R s (Callback t ev) =
     (if running_run s t then (case event_callback s ev of Inl e \<Rightarrow> s | Inr s' \<Rightarrow> s')
      else s)"
| "step R s (RunExit t r) =
     (if running_run s t then remove_task (snd (run_pipeline_exit s r)) t else s)"

definition run :: "(pyval \<Rightarrow> exn + string \<times> bytes) \<Rightarrow> session \<Rightarrow> event list \<Rightarrow> session" where
  "run R s evs = foldl (step R) s evs"

text \<open>The pipeline runs that the event loop holds: created by \<^verbatim>\<open>on_chunk\<close>, not yet finished.\<close>

definition active_runs :: "session \<Rightarrow> task list" where
  "active_runs s = filter (\<lambda>k. task_coro k = RunPipeline) (hass_tasks s)"

text \<open>A media resolver for concrete runs: every media id resolves to three bytes of audio.\<close>

definition wav_resolver :: "pyval \<Rightarrow> exn + string \<times> bytes" where
  "wav_resolver media_id = Inr (''raw'', [1, 2, 3])"

section \<open>Notions used to state the properties\<close>

text \<open>
  \<open>passes V seg cs\<close>: every chunk of \<open>cs\<close> is non-empty and \<^verbatim>\<open>process\<close> returns true on it, the
  segmenter being carried from chunk to chunk. \<open>feed V seg cs\<close> is the segmenter after
  \<^verbatim>\<open>process\<close> has been called on each chunk of \<open>cs\<close>.
\<close>

fun passes :: "'seg VoiceCommandSegmenter \<Rightarrow> 'seg \<Rightarrow> bytes list \<Rightarrow> bool" where
  "passes V seg [] = True"
| "passes V seg (c # cs) =
     (c \<noteq> [] \<and> fst (process V seg c) \<and> passes V (snd (process V seg c)) cs)"

fun feed :: "'seg VoiceCommandSegmenter \<Rightarrow> 'seg \<Rightarrow> bytes list \<Rightarrow> 'seg" where
  "feed V seg [] = seg"
| "feed V seg (c # cs) = feed V (snd (process V seg c)) cs"

text \<open>The last \<open>n\<close> elements of a list (all of it when it is shorter).\<close>

definition lastn :: "nat \<Rightarrow> 'a list \<Rightarrow> 'a list" where
  "lastn n xs = drop (length xs - n) xs"

text \<open>
  The conversation identifiers passed to the pipeline engine so far, one for each call of
  \<^verbatim>\<open>async_pipeline_from_audio_stream\<close>, in order.
\<close>

fun passed_ids :: "call list \<Rightarrow> pyval list" where
  "passed_ids [] = []"
| "passed_ids (PipelineFromAudioStream c # cs) = c # passed_ids cs"
| "passed_ids (x # cs) = passed_ids cs"

definition invocations :: "session \<Rightarrow> pyval list" where
  "invocations s = passed_ids (calls s)"

text \<open>The events that reach the assignment to \<^verbatim>\<open>self._conversation_id\<close>.\<close>

fun stores_conversation_id :: "event \<Rightarrow> bool" where
  "stores_conversation_id (Callback t ev) =
     (event_type ev = INTENT_END \<and> event_data ev \<noteq> None \<and> event_data ev \<noteq> Some [])"
| "stores_conversation_id e = False"

text \<open>
  The invariant behind the run slot: task handles are fresh and distinct, and the pipeline
  runs held by the event loop are exactly the one named by \<^verbatim>\<open>_pipeline_task\<close>, if any.
\<close>

definition slot_inv :: "session \<Rightarrow> bool" where
  "slot_inv s \<longleftrightarrow>
     (\<forall>k \<in> set (hass_tasks s). task_id k < hass_next_task s) \<and>
     distinct (map task_id (hass_tasks s)) \<and>
     map task_id (active_runs s) = (case pipeline_task s of None \<Rightarrow> [] | Some t \<Rightarrow> [t])"

text \<open>
  Until the pipeline engine has been called once, no run has started and no conversation
  identifier has been stored; the first call passes \<^verbatim>\<open>None\<close>.
\<close>

definition first_run_inv :: "session \<Rightarrow> bool" where
  "first_run_inv s \<longleftrightarrow>
     (if invocations s = []
      then conversation_id s = PyNone \<and>
           (\<forall>k \<in> set (hass_tasks s). task_coro k = RunPipeline \<longrightarrow> \<not> task_started k)
      else hd (invocations s) = PyNone)"

text \<open>Events as the pipeline engine sends them, for concrete runs.\<close>

definition intent_end_event :: "string \<Rightarrow> PipelineEvent" where
  "intent_end_event c =
     \<lparr>event_type = INTENT_END,
      event_data = Some [(''intent_output'',
                          PyDict [(''response'', PyDict []), (''conversation_id'', PyStr c)])]\<rparr>"

definition tts_end_event :: "string \<Rightarrow> PipelineEvent" where
  "tts_end_event m =
     \<lparr>event_type = TTS_END,
      event_data = Some [(''tts_output'',
                          PyDict [(''media_id'', PyStr m), (''mime_type'', PyStr ''audio/raw'')])]\<rparr>"

section \<open>The segmentation loop\<close>

lemma length_deque_append:
  "length d \<le> m \<Longrightarrow> length (deque_append m d x) \<le> m"
  by (auto simp: deque_append_def)

lemma segment_step_buffer_bound:
  assumes "segment_step V seg b c = Some (y, seg', b')"
    and "length b \<le> BUFFERED_CHUNKS_BEFORE_SPEECH"
  shows "length b' \<le> BUFFERED_CHUNKS_BEFORE_SPEECH"
  using assms
  by (auto simp: segment_step_def length_deque_append split: if_splits prod.splits)

lemma loop_states_buffer_bound:
  "length b \<le> BUFFERED_CHUNKS_BEFORE_SPEECH \<Longrightarrow> (s, b') \<in> set (loop_states V seg b q)
   \<Longrightarrow> length b' \<le> BUFFERED_CHUNKS_BEFORE_SPEECH"
proof (induction q arbitrary: seg b)
  case Nil
  then show ?case by simp
next
  case (Cons c q)
  show ?case
  proof (cases "segment_step V seg b c")
    case None
    with Cons.prems show ?thesis by simp
  next
    case (Some r)
    obtain y seg1 b1 where r: "r = (y, seg1, b1)" by (cases r) auto
    have b1: "length b1 \<le> BUFFERED_CHUNKS_BEFORE_SPEECH"
      using segment_step_buffer_bound [of V seg b c y seg1 b1] Some r Cons.prems(1) by simp
    from Cons.prems(2) Some r
    have "(s, b') = (seg1, b1) \<or> (s, b') \<in> set (loop_states V seg1 b1 q)" by simp
    then show ?thesis using b1 Cons.IH [OF b1] by auto
  qed
qed

lemma no_command_no_output:
  "True \<notin> set (map (\<lambda>(s, b). in_command V s) (loop_states V seg b q))
   \<Longrightarrow> fst (segment_loop V seg b q) = []"
proof (induction q arbitrary: seg b)
  case Nil
  then show ?case by simp
next
  case (Cons c q)
  show ?case
  proof (cases "segment_step V seg b c")
    case None
    then show ?thesis by simp
  next
    case (Some r)
    obtain y seg1 b1 where r: "r = (y, seg1, b1)" by (cases r) auto
    from Cons.prems Some r have nc: "\<not> in_command V seg1"
      and rest: "True \<notin> set (map (\<lambda>(s, b). in_command V s) (loop_states V seg1 b1 q))"
      by auto
    from Some r nc have "y = []"
      by (auto simp: segment_step_def split: if_splits prod.splits)
    with Some r Cons.IH [OF rest] show ?thesis by (auto split: prod.splits)
  qed
qed

lemma segment_step_Some_iff:
  "(\<exists>r. segment_step V seg b c = Some r) \<longleftrightarrow> (c \<noteq> [] \<and> fst (process V seg c))"
  by (auto simp: segment_step_def split: prod.splits)

lemma segment_step_None_iff:
  "segment_step V seg b c = None \<longleftrightarrow> (c = [] \<or> \<not> fst (process V seg c))"
  by (auto simp: segment_step_def split: prod.splits)

lemma segment_step_seg:
  "segment_step V seg b c = Some (y, seg', b') \<Longrightarrow> seg' = snd (process V seg c)"
  by (auto simp: segment_step_def split: prod.splits if_splits)

lemma passes_timeout:
  "passes V seg q \<Longrightarrow> snd (segment_loop V seg b q) = Inl TimeoutError"
proof (induction q arbitrary: seg b)
  case Nil
  then show ?case by simp
next
  case (Cons c q)
  from Cons.prems have "c \<noteq> [] \<and> fst (process V seg c)" by simp
  then obtain r where r: "segment_step V seg b c = Some r"
    using segment_step_Some_iff [of V seg b c] by blast
  obtain y seg1 b1 where r': "r = (y, seg1, b1)" by (cases r) auto
  have "seg1 = snd (process V seg c)" using segment_step_seg r r' by metis
  with Cons.prems have "passes V seg1 q" by simp
  from Cons.IH [OF this, of b1] r r' show ?case
    by (auto split: prod.splits)
qed

lemma stop_after_passes:
  "passes V seg pre \<Longrightarrow> c = [] \<or> \<not> fst (process V (feed V seg pre) c) \<Longrightarrow>
   segment_loop V seg b (pre @ c # post) = (fst (segment_loop V seg b pre), Inr ())"
proof (induction pre arbitrary: seg b)
  case Nil
  then have "segment_step V seg b c = None"
    using segment_step_None_iff [of V seg b c] by simp
  then show ?case by simp
next
  case (Cons a pre)
  from Cons.prems have "a \<noteq> [] \<and> fst (process V seg a)" by simp
  then obtain r where r: "segment_step V seg b a = Some r"
    using segment_step_Some_iff [of V seg b a] by blast
  obtain y seg1 b1 where r': "r = (y, seg1, b1)" by (cases r) auto
  have s1: "seg1 = snd (process V seg a)" using segment_step_seg r r' by metis
  with Cons.prems have p: "passes V seg1 pre"
    and st: "c = [] \<or> \<not> fst (process V (feed V seg1 pre) c)" by simp_all
  from Cons.IH [OF p st, of b1] r r' show ?case
    by (auto split: prod.splits)
qed

lemma passes_or_stops:
  "\<not> passes V seg q \<Longrightarrow>
   \<exists>pre c post. q = pre @ c # post \<and> passes V seg pre \<and>
     (c = [] \<or> \<not> fst (process V (feed V seg pre) c))"
proof (induction q arbitrary: seg)
  case Nil
  then show ?case by simp
next
  case (Cons a q)
  show ?case
  proof (cases "a \<noteq> [] \<and> fst (process V seg a)")
    case False
    then have "a # q = [] @ a # q \<and> passes V seg [] \<and>
       (a = [] \<or> \<not> fst (process V (feed V seg []) a))" by auto
    then show ?thesis by blast
  next
    case True
    with Cons.prems have "\<not> passes V (snd (process V seg a)) q" by simp
    from Cons.IH [OF this] obtain pre c post where
      q: "q = pre @ c # post" and p: "passes V (snd (process V seg a)) pre"
      and st: "c = [] \<or> \<not> fst (process V (feed V (snd (process V seg a)) pre) c)" by blast
    from q p st True have "a # q = (a # pre) @ c # post \<and> passes V seg (a # pre) \<and>
       (c = [] \<or> \<not> fst (process V (feed V seg (a # pre)) c))" by simp
    then show ?thesis by blast
  qed
qed

lemma segment_loop_outcome:
  "snd (segment_loop V seg b q) = (if passes V seg q then Inl TimeoutError else Inr ())"
proof (cases "passes V seg q")
  case True
  then show ?thesis by (simp add: passes_timeout)
next
  case False
  then obtain pre c post where q: "q = pre @ c # post" and p: "passes V seg pre"
    and st: "c = [] \<or> \<not> fst (process V (feed V seg pre) c)"
    using passes_or_stops [of V seg q] by blast
  from stop_after_passes [OF p st, of b post] q False show ?thesis by simp
qed

lemma prespeech_flush:
  "length b + k \<le> BUFFERED_CHUNKS_BEFORE_SPEECH \<Longrightarrow>
   map (\<lambda>(s, b). in_command V s) (take (Suc k) (loop_states V seg b q)) = replicate k False @ [True]
   \<Longrightarrow> \<exists>rest. fst (segment_loop V seg b q) = b @ take (Suc k) q @ rest"
proof (induction k arbitrary: seg b q)
  case 0
  show ?case
  proof (cases q)
    case Nil
    with 0 show ?thesis by simp
  next
    case (Cons c q')
    show ?thesis
    proof (cases "segment_step V seg b c")
      case None
      with 0 Cons show ?thesis by simp
    next
      case (Some r)
      obtain y seg1 b1 where r: "r = (y, seg1, b1)" by (cases r) auto
      from "0.prems"(2) Cons Some r have ic: "in_command V seg1" by simp
      from Some r ic have "y = b @ [c]"
        by (auto simp: segment_step_def split: if_splits prod.splits)
      with Some r Cons show ?thesis by (auto split: prod.splits)
    qed
  qed
next
  case (Suc k)
  show ?case
  proof (cases q)
    case Nil
    with Suc.prems show ?thesis by simp
  next
    case (Cons c q')
    show ?thesis
    proof (cases "segment_step V seg b c")
      case None
      with Suc.prems Cons show ?thesis by simp
    next
      case (Some r)
      obtain y seg1 b1 where r: "r = (y, seg1, b1)" by (cases r) auto
      from Suc.prems(2) Cons Some r have nc: "\<not> in_command V seg1"
        and rest: "map (\<lambda>(s, b). in_command V s) (take (Suc k) (loop_states V seg1 b1 q'))
                   = replicate k False @ [True]"
        by simp_all
      from Some r nc Suc.prems(1) have y: "y = []" and b1: "b1 = b @ [c]"
        by (auto simp: segment_step_def deque_append_def BUFFERED_CHUNKS_BEFORE_SPEECH_def
            split: if_splits prod.splits)
      from Suc.prems(1) b1 have "length b1 + k \<le> BUFFERED_CHUNKS_BEFORE_SPEECH" by simp
      from Suc.IH [OF this rest] obtain rest' where
        "fst (segment_loop V seg1 b1 q') = b1 @ take (Suc k) q' @ rest'" by blast
      with Some r Cons y b1 show ?thesis by (auto split: prod.splits)
    qed
  qed
qed

lemma deque_append_lastn:
  "0 < m \<Longrightarrow> length d \<le> m \<Longrightarrow> deque_append m d x = lastn m (d @ [x])"
proof -
  assume m: "0 < m" and len: "length d \<le> m"
  show ?thesis
  proof (cases "length d = m")
    case True
    with m have "d \<noteq> []" by auto
    with True m show ?thesis by (simp add: deque_append_def lastn_def drop_Suc)
  next
    case False
    with len m show ?thesis by (simp add: deque_append_def lastn_def)
  qed
qed

lemma lastn_lastn_append:
  "lastn n (lastn n xs @ ys) = lastn n (xs @ ys)"
  by (cases "n \<le> length xs") (auto simp: lastn_def add.commute)

lemma length_lastn: "length (lastn n xs) \<le> n"
  by (simp add: lastn_def)

lemma prespeech_buffers:
  "length b \<le> BUFFERED_CHUNKS_BEFORE_SPEECH \<Longrightarrow>
   map (\<lambda>(s, b). in_command V s) (loop_states V seg b q) = replicate (length q) False \<Longrightarrow>
   i < length q \<Longrightarrow>
   snd (loop_states V seg b q ! i) = lastn BUFFERED_CHUNKS_BEFORE_SPEECH (b @ take (Suc i) q)"
proof (induction q arbitrary: seg b i)
  case Nil
  then show ?case by simp
next
  case (Cons c q)
  show ?case
  proof (cases "segment_step V seg b c")
    case None
    with Cons.prems show ?thesis by simp
  next
    case (Some r)
    obtain y seg1 b1 where r: "r = (y, seg1, b1)" by (cases r) auto
    from Cons.prems(2) Some r have nc: "\<not> in_command V seg1"
      and rest: "map (\<lambda>(s, b). in_command V s) (loop_states V seg1 b1 q) = replicate (length q) False"
      by simp_all
    from Some r nc have "b1 = deque_append BUFFERED_CHUNKS_BEFORE_SPEECH b c"
      by (auto simp: segment_step_def split: if_splits prod.splits)
    with Cons.prems(1) have b1: "b1 = lastn BUFFERED_CHUNKS_BEFORE_SPEECH (b @ [c])"
      by (simp add: deque_append_lastn BUFFERED_CHUNKS_BEFORE_SPEECH_def)
    then have len: "length b1 \<le> BUFFERED_CHUNKS_BEFORE_SPEECH" by (simp add: length_lastn)
    show ?thesis
    proof (cases i)
      case 0
      with Some r b1 show ?thesis by simp
    next
      case (Suc j)
      with Cons.prems(3) have "j < length q" by simp
      from Cons.IH [OF len rest this]
      have "snd (loop_states V seg1 b1 q ! j)
            = lastn BUFFERED_CHUNKS_BEFORE_SPEECH (b1 @ take (Suc j) q)" .
      also have "\<dots> = lastn BUFFERED_CHUNKS_BEFORE_SPEECH ((b @ [c]) @ take (Suc j) q)"
        unfolding b1 by (rule lastn_lastn_append)
      finally show ?thesis using Some r Suc by simp
    qed
  qed
qed

lemma loop_states_length_le: "length (loop_states V seg b q) \<le> length q"
  by (induction q arbitrary: seg b) (auto split: option.splits)

section \<open>The session operations\<close>

lemma clear_loop_Nil: "clear_loop q = []"
  by (induction q) auto

lemma on_chunk_idle:
  "pipeline_task s = None \<Longrightarrow>
   on_chunk s c = s\<lparr>audio_queue := [c], pipeline_task := Some (hass_next_task s),
      hass_tasks := hass_tasks s @ [\<lparr>task_id = hass_next_task s, task_coro = RunPipeline,
          task_name = ''voip_pipeline_run'', task_started = False\<rparr>],
      hass_next_task := Suc (hass_next_task s)\<rparr>"
  by (simp add: on_chunk_def async_create_background_task_def clear_audio_queue_def clear_loop_Nil)

lemma on_chunk_busy:
  "pipeline_task s \<noteq> None \<Longrightarrow> on_chunk s c = s\<lparr>audio_queue := audio_queue s @ [c]\<rparr>"
  by (auto simp: on_chunk_def)

lemma event_callback_ignored:
  "event_data ev = None \<or> event_data ev = Some [] \<or> event_type ev \<notin> {INTENT_END, TTS_END}
   \<Longrightarrow> event_callback s ev = Inr s"
  by (auto simp: event_callback_def split: option.splits)

lemma run_pipeline_exit_slot: "pipeline_task (snd (run_pipeline_exit s r)) = None"
  by (auto simp: run_pipeline_exit_def split: sum.splits exn.splits)

section \<open>The run slot\<close>

lemma slot_inv_init: "slot_inv init"
  by (simp add: slot_inv_def init_def active_runs_def)

lemma slot_inv_tasks_cong:
  "hass_tasks s' = hass_tasks s \<Longrightarrow> hass_next_task s' = hass_next_task s \<Longrightarrow>
   pipeline_task s' = pipeline_task s \<Longrightarrow> slot_inv s' = slot_inv s"
  by (simp add: slot_inv_def active_runs_def)

lemma slot_inv_on_chunk: "slot_inv s \<Longrightarrow> slot_inv (on_chunk s c)"
proof (cases "pipeline_task s")
  case None
  assume "slot_inv s"
  with None show ?thesis
    by (fastforce simp: on_chunk_idle slot_inv_def active_runs_def)
next
  case (Some t)
  assume "slot_inv s"
  with Some show ?thesis
    by (simp add: on_chunk_busy slot_inv_def active_runs_def)
qed

lemma close_transport_tasks [simp]:
  "hass_tasks (close_transport s) = hass_tasks s"
  "hass_next_task (close_transport s) = hass_next_task s"
  "pipeline_task (close_transport s) = pipeline_task s"
  "conversation_id (close_transport s) = conversation_id s"
  by (auto simp: close_transport_def split: option.splits)

lemma clear_audio_queue_tasks [simp]:
  "hass_tasks (clear_audio_queue s) = hass_tasks s"
  "hass_next_task (clear_audio_queue s) = hass_next_task s"
  "pipeline_task (clear_audio_queue s) = pipeline_task s"
  "conversation_id (clear_audio_queue s) = conversation_id s"
  "calls (clear_audio_queue s) = calls s"
  "transport (clear_audio_queue s) = transport s"
  by (auto simp: clear_audio_queue_def)

lemma stt_stream_exit_tasks [simp]:
  "hass_tasks (snd (stt_stream_exit s r)) = hass_tasks s"
  "hass_next_task (snd (stt_stream_exit s r)) = hass_next_task s"
  "pipeline_task (snd (stt_stream_exit s r)) = pipeline_task s"
  "conversation_id (snd (stt_stream_exit s r)) = conversation_id s"
  by (auto simp: stt_stream_exit_def split: sum.splits exn.splits)

lemma send_media_tasks [simp]:
  "hass_tasks (snd (send_media R s m)) = hass_tasks s"
  "hass_next_task (snd (send_media R s m)) = hass_next_task s"
  "pipeline_task (snd (send_media R s m)) = pipeline_task s"
  "conversation_id (snd (send_media R s m)) = conversation_id s"
  by (auto simp: send_media_def Let_def split: option.splits sum.splits prod.splits)

lemma run_pipeline_exit_tasks [simp]:
  "hass_tasks (snd (run_pipeline_exit s r)) = hass_tasks s"
  "hass_next_task (snd (run_pipeline_exit s r)) = hass_next_task s"
  "conversation_id (snd (run_pipeline_exit s r)) = conversation_id s"
  by (auto simp: run_pipeline_exit_def split: sum.splits exn.splits)

lemma find_task_Some:
  "find_task s t = Some k \<Longrightarrow> k \<in> set (hass_tasks s) \<and> task_id k = t"
  by (auto simp: find_task_def find_Some_iff)

lemma slot_inv_callback:
  assumes "slot_inv s" and "event_callback s ev = Inr s'"
  shows "slot_inv s'"
proof -
  from assms(2) consider "s' = s" | c where "s' = s\<lparr>conversation_id := c\<rparr>"
    | m where "s' = snd (async_create_background_task s (SendMedia m) ''voip_pipeline_tts'')"
    by (auto simp: event_callback_def split: option.splits if_splits sum.splits)
  then show ?thesis
  proof cases
    case 1
    with assms(1) show ?thesis by simp
  next
    case 2
    with assms(1) show ?thesis by (simp add: slot_inv_def active_runs_def)
  next
    case 3
    with assms(1) show ?thesis
      by (fastforce simp: slot_inv_def active_runs_def async_create_background_task_def)
  qed
qed

lemma slot_inv_start_task: "slot_inv s \<Longrightarrow> slot_inv (run_pipeline_invoke (start_task s t))"
proof -
  assume inv: "slot_inv s"
  let ?f = "\<lambda>k. if task_id k = t then k\<lparr>task_started := True\<rparr> else k"
  have id: "map task_id (map ?f xs) = map task_id xs" for xs :: "task list"
    by (induction xs) auto
  have run: "map task_id (filter (\<lambda>k. task_coro k = RunPipeline) (map ?f xs))
      = map task_id (filter (\<lambda>k. task_coro k = RunPipeline) xs)" for xs :: "task list"
    by (induction xs) auto
  from inv show ?thesis
    unfolding slot_inv_def active_runs_def run_pipeline_invoke_def start_task_def
    by (auto simp: id run simp del: map_map)
qed

lemma slot_inv_remove_other:
  assumes "slot_inv s" and "find_task s t = Some k" and "task_coro k \<noteq> RunPipeline"
  shows "slot_inv (remove_task s t)"
proof -
  from assms(2) have k: "k \<in> set (hass_tasks s)" "task_id k = t"
    using find_task_Some by auto
  from assms(1) have d: "distinct (map task_id (hass_tasks s))" by (simp add: slot_inv_def)
  have "\<forall>j \<in> set (hass_tasks s). task_coro j = RunPipeline \<longrightarrow> task_id j \<noteq> t"
    using d k assms(3) by (metis distinct_map inj_onD)
  then have "filter (\<lambda>j. task_coro j = RunPipeline) (filter (\<lambda>j. task_id j \<noteq> t) (hass_tasks s))
      = filter (\<lambda>j. task_coro j = RunPipeline) (hass_tasks s)"
    by (auto intro: filter_cong)
  with assms(1) show ?thesis
    by (auto simp: slot_inv_def active_runs_def remove_task_def distinct_map_filter)
qed

lemma slot_inv_run_exit:
  assumes "slot_inv s" and "running_run s t"
  shows "slot_inv (remove_task (snd (run_pipeline_exit s r)) t)"
proof -
  from assms(2) obtain k where k: "find_task s t = Some k" "task_coro k = RunPipeline"
    by (auto simp: running_run_def split: option.splits)
  then have kin: "k \<in> set (active_runs s)" "task_id k = t"
    using find_task_Some by (auto simp: active_runs_def)
  from assms(1) have ids: "map task_id (active_runs s)
      = (case pipeline_task s of None \<Rightarrow> [] | Some t \<Rightarrow> [t])"
    by (simp add: slot_inv_def)
  from kin ids have ar: "map task_id (active_runs s) = [t]"
    by (cases "pipeline_task s") (auto simp: map_eq_Cons_conv)
  then have "filter (\<lambda>j. task_id j \<noteq> t) (active_runs s) = []"
    by (auto simp: map_eq_Cons_conv)
  then have "filter (\<lambda>j. task_coro j = RunPipeline) (filter (\<lambda>j. task_id j \<noteq> t) (hass_tasks s)) = []"
    by (simp add: active_runs_def conj_commute)
  with assms(1) show ?thesis
    by (auto simp: slot_inv_def active_runs_def remove_task_def distinct_map_filter
        run_pipeline_exit_slot)
qed

lemma slot_inv_step: "slot_inv s \<Longrightarrow> slot_inv (step R s e)"
proof (cases e)
  case (ConnectionMade tr)
  assume "slot_inv s"
  with ConnectionMade show ?thesis
    by (simp add: connection_made_def slot_inv_def active_runs_def)
next
  case ConnectionLost
  assume "slot_inv s"
  with ConnectionLost show ?thesis
    by (simp add: connection_lost_def slot_inv_def active_runs_def)
next
  case (OnChunk c)
  assume "slot_inv s"
  with OnChunk show ?thesis by (simp add: slot_inv_on_chunk)
next
  case (TaskStart t)
  assume inv: "slot_inv s"
  show ?thesis
  proof (cases "find_task s t")
    case None
    with inv TaskStart show ?thesis by simp
  next
    case (Some k)
    show ?thesis
    proof (cases "task_coro k")
      case RunPipeline
      with inv TaskStart Some show ?thesis by (simp add: slot_inv_start_task)
    next
      case (SendMedia m)
      have "slot_inv (snd (send_media R s m))"
        using inv by (simp add: slot_inv_tasks_cong [of "snd (send_media R s m)" s])
      moreover have "find_task (snd (send_media R s m)) t = Some k"
        using Some by (simp add: find_task_def)
      ultimately have "slot_inv (remove_task (snd (send_media R s m)) t)"
        using SendMedia slot_inv_remove_other by auto
      with inv TaskStart Some SendMedia show ?thesis by simp
    qed
  qed
next
  case (QueueGet t)
  assume "slot_inv s"
  with QueueGet show ?thesis by (simp add: slot_inv_def active_runs_def)
next
  case (SttStreamExit t r)
  assume "slot_inv s"
  with SttStreamExit show ?thesis
    by (simp add: slot_inv_tasks_cong [of "snd (stt_stream_exit s r)" s])
next
  case SttStreamFinalize
  assume "slot_inv s"
  with SttStreamFinalize show ?thesis
    by (simp add: slot_inv_tasks_cong [of "clear_audio_queue s" s])
next
  case (Callback t ev)
  assume "slot_inv s"
  with Callback show ?thesis
    by (auto simp: slot_inv_callback split: sum.splits)
next
  case (RunExit t r)
  assume "slot_inv s"
  with RunExit show ?thesis by (simp add: slot_inv_run_exit)
qed

lemma slot_inv_run: "slot_inv s \<Longrightarrow> slot_inv (run R s evs)"
  unfolding run_def by (induction evs arbitrary: s) (simp_all add: slot_inv_step)

section \<open>The conversation identifier\<close>

lemma passed_ids_append: "passed_ids (xs @ ys) = passed_ids xs @ passed_ids ys"
  by (induction xs rule: passed_ids.induct) auto

lemma invocations_simps [simp]:
  "invocations (close_transport s) = invocations s"
  "invocations (clear_audio_queue s) = invocations s"
  "invocations (snd (stt_stream_exit s r)) = invocations s"
  "invocations (snd (send_media R s m)) = invocations s"
  "invocations (snd (run_pipeline_exit s r)) = invocations s"
  "invocations (remove_task s t) = invocations s"
  "invocations (start_task s t) = invocations s"
  "invocations (on_chunk s c) = invocations s"
  "invocations (connection_made s tr) = invocations s"
  "invocations (connection_lost s) = invocations s"
  "invocations (run_pipeline_invoke s) = invocations s @ [conversation_id s]"
  by (auto simp: invocations_def close_transport_def clear_audio_queue_def stt_stream_exit_def
      send_media_def run_pipeline_exit_def remove_task_def start_task_def on_chunk_def
      connection_made_def connection_lost_def run_pipeline_invoke_def passed_ids_append
      async_create_background_task_def Let_def
      split: option.splits sum.splits exn.splits prod.splits)

lemma event_callback_cases:
  assumes "event_callback s ev = Inr s'"
  obtains "s' = s" | c where "event_type ev = INTENT_END" "s' = s\<lparr>conversation_id := c\<rparr>"
    | m where "s' = snd (async_create_background_task s (SendMedia m) ''voip_pipeline_tts'')"
  using assms
  by (auto simp: event_callback_def split: option.splits if_splits sum.splits)

lemma invocations_callback: "event_callback s ev = Inr s' \<Longrightarrow> invocations s' = invocations s"
  by (erule event_callback_cases) (auto simp: invocations_def async_create_background_task_def)

lemma conversation_id_simps [simp]:
  "conversation_id (remove_task s t) = conversation_id s"
  "conversation_id (start_task s t) = conversation_id s"
  "conversation_id (on_chunk s c) = conversation_id s"
  "conversation_id (connection_made s tr) = conversation_id s"
  "conversation_id (connection_lost s) = conversation_id s"
  "conversation_id (run_pipeline_invoke s) = conversation_id s"
  by (auto simp: remove_task_def start_task_def on_chunk_def connection_made_def
      connection_lost_def run_pipeline_invoke_def async_create_background_task_def
      clear_audio_queue_def Let_def)

lemma step_keeps_conversation_id:
  "\<not> stores_conversation_id e \<Longrightarrow> conversation_id (step R s e) = conversation_id s"
proof (cases e)
  case (Callback t ev)
  assume "\<not> stores_conversation_id e"
  with Callback consider "event_type ev \<noteq> INTENT_END"
    | "event_data ev = None \<or> event_data ev = Some []" by auto
  then show ?thesis
  proof cases
    case 1
    show ?thesis
    proof (cases "event_callback s ev")
      case (Inl x)
      with Callback show ?thesis by simp
    next
      case (Inr s')
      from Inr 1 have "conversation_id s' = conversation_id s"
        by (auto elim!: event_callback_cases simp: async_create_background_task_def)
      with Callback Inr show ?thesis by simp
    qed
  next
    case 2
    then have "event_callback s ev = Inr s" by (auto simp: event_callback_ignored)
    with Callback show ?thesis by simp
  qed
qed (auto split: option.splits coroutine.splits)

lemma step_invocations:
  "\<exists>n. invocations (step R s e) = invocations s @ replicate n (conversation_id s)"
proof (cases e)
  case (TaskStart t)
  have "invocations (step R s e) = invocations s @ replicate 0 (conversation_id s)
      \<or> invocations (step R s e) = invocations s @ replicate 1 (conversation_id s)"
    using TaskStart by (auto split: option.splits coroutine.splits)
  then show ?thesis by blast
next
  case (Callback t ev)
  have "invocations (step R s e) = invocations s @ replicate 0 (conversation_id s)"
    using Callback by (auto simp: invocations_callback split: sum.splits)
  then show ?thesis by blast
next
  case (ConnectionMade tr)
  then have "invocations (step R s e) = invocations s @ replicate 0 (conversation_id s)" by simp
  then show ?thesis by blast
next
  case ConnectionLost
  then have "invocations (step R s e) = invocations s @ replicate 0 (conversation_id s)" by simp
  then show ?thesis by blast
next
  case (OnChunk c)
  then have "invocations (step R s e) = invocations s @ replicate 0 (conversation_id s)" by simp
  then show ?thesis by blast
next
  case (QueueGet t)
  then have "invocations (step R s e) = invocations s @ replicate 0 (conversation_id s)"
    by (simp add: invocations_def)
  then show ?thesis by blast
next
  case (SttStreamExit t r)
  then have "invocations (step R s e) = invocations s @ replicate 0 (conversation_id s)" by simp
  then show ?thesis by blast
next
  case SttStreamFinalize
  then have "invocations (step R s e) = invocations s @ replicate 0 (conversation_id s)" by simp
  then show ?thesis by blast
next
  case (RunExit t r)
  then have "invocations (step R s e) = invocations s @ replicate 0 (conversation_id s)" by simp
  then show ?thesis by blast
qed

lemma run_reuses_conversation_id:
  "\<forall>e \<in> set evs. \<not> stores_conversation_id e \<Longrightarrow>
   conversation_id (run R s evs) = conversation_id s \<and>
   (\<exists>n. invocations (run R s evs) = invocations s @ replicate n (conversation_id s))"
proof (induction evs arbitrary: s)
  case Nil
  have "invocations s = invocations s @ replicate 0 (conversation_id s)" by simp
  then show ?case unfolding run_def by auto
next
  case (Cons e evs)
  from Cons.prems have e: "\<not> stores_conversation_id e"
    and evs: "\<forall>e \<in> set evs. \<not> stores_conversation_id e" by simp_all
  have c1: "conversation_id (step R s e) = conversation_id s"
    using e by (rule step_keeps_conversation_id)
  obtain n where n: "invocations (step R s e) = invocations s @ replicate n (conversation_id s)"
    using step_invocations by blast
  from Cons.IH [OF evs, of "step R s e"] c1 obtain m where
    c2: "conversation_id (run R (step R s e) evs) = conversation_id s"
    and m: "invocations (run R (step R s e) evs)
            = invocations (step R s e) @ replicate m (conversation_id s)" by auto
  have r: "run R s (e # evs) = run R (step R s e) evs" by (simp add: run_def)
  from m n have "invocations (run R s (e # evs))
      = invocations s @ replicate (n + m) (conversation_id s)"
    by (simp add: r replicate_add)
  with c2 r show ?case by metis
qed

lemma first_run_inv_init: "first_run_inv init"
  by (simp add: first_run_inv_def init_def invocations_def)

lemma first_run_inv_cong:
  "invocations s' = invocations s \<Longrightarrow> conversation_id s' = conversation_id s \<Longrightarrow>
   set (hass_tasks s') \<subseteq> set (hass_tasks s) \<Longrightarrow> first_run_inv s \<Longrightarrow> first_run_inv s'"
  by (auto simp: first_run_inv_def)

lemma running_run_started:
  "running_run s t \<Longrightarrow> \<exists>k \<in> set (hass_tasks s). task_coro k = RunPipeline \<and> task_started k"
  using find_task_Some by (auto simp: running_run_def split: option.splits)

lemma hass_tasks_on_chunk:
  "k \<in> set (hass_tasks (on_chunk s c)) \<Longrightarrow> k \<in> set (hass_tasks s) \<or> \<not> task_started k"
  by (auto simp: on_chunk_def async_create_background_task_def Let_def split: if_splits)

lemma hass_tasks_remove_task [simp]:
  "hass_tasks (remove_task s t) = filter (\<lambda>k. task_id k \<noteq> t) (hass_tasks s)"
  by (simp add: remove_task_def)

lemma first_run_inv_step: "first_run_inv s \<Longrightarrow> first_run_inv (step R s e)"
proof (cases e)
  case (ConnectionMade tr)
  assume "first_run_inv s"
  then show ?thesis using ConnectionMade
    by (auto intro: first_run_inv_cong simp: connection_made_def invocations_def)
next
  case ConnectionLost
  assume "first_run_inv s"
  then show ?thesis using ConnectionLost
    by (auto intro: first_run_inv_cong simp: connection_lost_def invocations_def)
next
  case (OnChunk c)
  assume "first_run_inv s"
  then show ?thesis using OnChunk
    by (auto simp: first_run_inv_def dest: hass_tasks_on_chunk)
next
  case (TaskStart t)
  assume inv: "first_run_inv s"
  show ?thesis
  proof (cases "find_task s t")
    case None
    with inv TaskStart show ?thesis by simp
  next
    case (Some k)
    show ?thesis
    proof (cases "task_coro k")
      case RunPipeline
      have "first_run_inv (run_pipeline_invoke (start_task s t))"
        using inv by (cases "invocations s = []") (auto simp: first_run_inv_def)
      with inv TaskStart Some RunPipeline show ?thesis by simp
    next
      case (SendMedia m)
      have "first_run_inv (remove_task (snd (send_media R s m)) t)"
        using inv by (rule first_run_inv_cong [rotated 3]) auto
      with inv TaskStart Some SendMedia show ?thesis by simp
    qed
  qed
next
  case (QueueGet t)
  assume "first_run_inv s"
  then show ?thesis using QueueGet
    by (auto simp: first_run_inv_def invocations_def)
next
  case (SttStreamExit t r)
  assume "first_run_inv s"
  then show ?thesis using SttStreamExit
    by (auto intro: first_run_inv_cong)
next
  case SttStreamFinalize
  assume "first_run_inv s"
  then show ?thesis using SttStreamFinalize
    by (auto intro: first_run_inv_cong)
next
  case (Callback t ev)
  assume inv: "first_run_inv s"
  show ?thesis
  proof (cases "running_run s t")
    case False
    with inv Callback show ?thesis by simp
  next
    case True
    with inv have ne: "invocations s \<noteq> []" and hd: "hd (invocations s) = PyNone"
      using running_run_started [of s t] by (auto simp: first_run_inv_def split: if_splits)
    show ?thesis
    proof (cases "event_callback s ev")
      case (Inl x)
      with inv Callback True show ?thesis by simp
    next
      case (Inr s')
      then have "invocations s' = invocations s" by (rule invocations_callback)
      with ne hd have "first_run_inv s'" by (simp add: first_run_inv_def)
      with Callback True Inr show ?thesis by simp
    qed
  qed
next
  case (RunExit t r)
  assume "first_run_inv s"
  then show ?thesis using RunExit
    by (auto intro!: first_run_inv_cong [of _ s])
qed

lemma first_run_inv_run: "first_run_inv s \<Longrightarrow> first_run_inv (run R s evs)"
  unfolding run_def by (induction evs arbitrary: s) (simp_all add: first_run_inv_step)

section \<open>Concrete runs of the byte segmenter\<close>

lemma silent_reads: "map (\<lambda>(s, b). in_command byte_vad s)
     (loop_states byte_vad NotStarted b (replicate n [0])) = replicate n False"
  by (induction n arbitrary: b) (auto simp: segment_step_def byte_vad_def)

lemma byte_vad_eval:
  "segment_audio byte_vad q = segment_loop byte_vad NotStarted [] q"
  "in_command_reads byte_vad q
     = map (\<lambda>(seg, b). seg = InCommand) (loop_states byte_vad NotStarted [] q)"
  "chunk_buffers byte_vad q = map snd (loop_states byte_vad NotStarted [] q)"
  by (simp_all add: segment_audio_def in_command_reads_def chunk_buffers_def byte_vad_def)

lemma byte_vad_step:
  "segment_step byte_vad seg b c =
     (if c = [] then None
      else case vad_process seg c of (ok, seg') \<Rightarrow>
        if \<not> ok then None
        else if seg' = InCommand then
          (if b \<noteq> [] then Some (b @ [c], seg', []) else Some ([c], seg', b))
        else Some ([], seg', deque_append BUFFERED_CHUNKS_BEFORE_SPEECH b c))"
  by (simp add: segment_step_def byte_vad_def split: prod.splits)

lemmas byte_vad_run =
  byte_vad_eval byte_vad_step deque_append_def BUFFERED_CHUNKS_BEFORE_SPEECH_def

section \<open>Concrete runs of the session\<close>

lemmas session_eval =
  run_def init_def on_chunk_def clear_audio_queue_def async_create_background_task_def
  connection_made_def connection_lost_def close_transport_def run_pipeline_invoke_def
  run_pipeline_exit_def stt_stream_exit_def event_callback_def send_media_def
  find_task_def start_task_def remove_task_def running_run_def active_runs_def
  invocations_def wav_resolver_def Let_def

lemma run_exit_frees_slot:
  assumes "slot_inv s" and "running_run s t"
  shows "active_runs (step R s (RunExit t r)) = [] \<and> pipeline_task (step R s (RunExit t r)) = None"
proof -
  have inv: "slot_inv (remove_task (snd (run_pipeline_exit s r)) t)"
    using assms by (rule slot_inv_run_exit)
  have pt: "pipeline_task (remove_task (snd (run_pipeline_exit s r)) t) = None"
    by (simp add: remove_task_def run_pipeline_exit_slot)
  from inv pt have "map task_id (active_runs (remove_task (snd (run_pipeline_exit s r)) t)) = []"
    by (simp add: slot_inv_def)
  with pt assms(2) show ?thesis by simp
qed

lemma slot_inv_active_runs:
  assumes "slot_inv s"
  shows "length (active_runs s) \<le> 1 \<and> (pipeline_task s = None \<longleftrightarrow> active_runs s = [])"
proof -
  from assms have m: "map task_id (active_runs s)
      = (case pipeline_task s of None \<Rightarrow> [] | Some t \<Rightarrow> [t])" by (simp add: slot_inv_def)
  have "length (active_runs s) = length (map task_id (active_runs s))" by simp
  also have "\<dots> \<le> 1" unfolding m by (simp split: option.splits)
  finally have l: "length (active_runs s) \<le> 1" .
  from m have "pipeline_task s = None \<longleftrightarrow> active_runs s = []"
    by (cases "pipeline_task s") auto
  with l show ?thesis by simp
qed

lemma burst_state:
  "run wav_resolver init [ConnectionMade 7, OnChunk [1], OnChunk [2], TaskStart 0, OnChunk [3]] =
     \<lparr>transport = Some 7, voip_device_is_active = True, audio_queue = [[1], [2], [3]],
      pipeline_task = Some 0, conversation_id = PyNone,
      hass_tasks = [\<lparr>task_id = 0, task_coro = RunPipeline, task_name = ''voip_pipeline_run'',
                      task_started = True\<rparr>],
      hass_next_task = Suc 0, calls = [PipelineFromAudioStream PyNone]\<rparr>"
  by (simp add: session_eval)

lemma find_append:
  "find P (xs @ ys) = (case find P xs of None \<Rightarrow> find P ys | Some x \<Rightarrow> Some x)"
  by (induction xs) auto

section \<open>The claims\<close>

text \<open>
  C9. An event delivered to \<^verbatim>\<open>_event_callback\<close> that has no payload (\<^verbatim>\<open>None\<close> or an empty
  dict), or whose type is neither \<^verbatim>\<open>INTENT_END\<close> nor \<^verbatim>\<open>TTS_END\<close>, is ignored: the callback
  returns without an exception and the session is the same as before, so the conversation
  identifier, the run slot, the queue, the transport, the tasks of the event loop and the
  recorded outbound calls are all unchanged.
\<close>

theorem event_without_payload_or_other_type_ignored:
  "event_data ev = None \<or> event_data ev = Some [] \<or> event_type ev \<notin> {INTENT_END, TTS_END}
   \<Longrightarrow> event_callback s ev = Inr s"
  by (rule event_callback_ignored)

theorem event_without_payload_or_other_type_ignored_witness:
  "event_callback (on_chunk init [1]) \<lparr>event_type = TTS_END, event_data = None\<rparr>
     = Inr (on_chunk init [1]) \<and>
   event_callback (on_chunk init [1]) \<lparr>event_type = INTENT_END, event_data = Some []\<rparr>
     = Inr (on_chunk init [1]) \<and>
   event_callback (on_chunk init [1])
       \<lparr>event_type = OtherEventType ''run-start'',
        event_data = Some [(''pipeline'', PyStr ''p'')]\<rparr>
     = Inr (on_chunk init [1])"
  using
    event_without_payload_or_other_type_ignored
      [of "\<lparr>event_type = TTS_END, event_data = None\<rparr>" "on_chunk init [1]"]
    event_without_payload_or_other_type_ignored
      [of "\<lparr>event_type = INTENT_END, event_data = Some []\<rparr>" "on_chunk init [1]"]
    event_without_payload_or_other_type_ignored
      [of "\<lparr>event_type = OtherEventType ''run-start'',
            event_data = Some [(''pipeline'', PyStr ''p'')]\<rparr>" "on_chunk init [1]"]
  by simp

text \<open>
  C10. \<^verbatim>\<open>on_chunk\<close> with an empty run slot discards everything that was queued, creates one
  background task for \<^verbatim>\<open>_run_pipeline\<close> and stores its handle in the run slot, and the queue
  then holds the delivered chunk alone; with an occupied run slot it creates nothing and
  appends the delivered chunk to the queue. In both cases the delivered chunk is the last
  element of the queue afterwards.
\<close>

theorem on_chunk_clears_starts_and_enqueues:
  "on_chunk s audio_bytes =
     (if pipeline_task s = None
      then s\<lparr>audio_queue := [audio_bytes],
             pipeline_task := Some (hass_next_task s),
             hass_tasks := hass_tasks s @
               [\<lparr>task_id = hass_next_task s, task_coro = RunPipeline,
                 task_name = ''voip_pipeline_run'', task_started = False\<rparr>],
             hass_next_task := Suc (hass_next_task s)\<rparr>
      else s\<lparr>audio_queue := audio_queue s @ [audio_bytes]\<rparr>)"
  by (simp add: on_chunk_idle on_chunk_busy)

theorem on_chunk_clears_starts_and_enqueues_witness:
  "audio_queue (on_chunk (init\<lparr>audio_queue := [[7], [8]]\<rparr>) [9]) = [[9]] \<and>
   map task_coro (hass_tasks (on_chunk (init\<lparr>audio_queue := [[7], [8]]\<rparr>) [9])) = [RunPipeline] \<and>
   audio_queue (on_chunk (on_chunk init [1]) [2]) = [[1], [2]] \<and>
   hass_tasks (on_chunk (on_chunk init [1]) [2]) = hass_tasks (on_chunk init [1])"
  using on_chunk_clears_starts_and_enqueues [of "init\<lparr>audio_queue := [[7], [8]]\<rparr>" "[9]"]
    on_chunk_clears_starts_and_enqueues [of "init" "[1]"]
    on_chunk_clears_starts_and_enqueues [of "on_chunk init [1]" "[2]"]
  by (simp add: init_def)

text \<open>
  C7. The look-back buffer never holds more than 100 chunks, whatever chunks are dequeued:
  after every completed pass of the loop of \<^verbatim>\<open>_segment_audio\<close> its length is at most
  \<^verbatim>\<open>_BUFFERED_CHUNKS_BEFORE_SPEECH\<close> = 100. While the segmenter has not reported
  \<^verbatim>\<open>in_command\<close>, the buffer holds exactly the last 100 chunks dequeued so far (all of them
  while there are fewer), and appending to a full buffer drops its oldest chunk.
\<close>

theorem lookback_buffer_never_exceeds_capacity:
  "BUFFERED_CHUNKS_BEFORE_SPEECH = 100 \<and>
   (\<forall>b \<in> set (chunk_buffers V queue). length b \<le> BUFFERED_CHUNKS_BEFORE_SPEECH) \<and>
   (in_command_reads V queue = replicate (length queue) False \<longrightarrow>
      (\<forall>i < length queue.
         chunk_buffers V queue ! i = lastn BUFFERED_CHUNKS_BEFORE_SPEECH (take (Suc i) queue))) \<and>
   (length d = BUFFERED_CHUNKS_BEFORE_SPEECH \<longrightarrow>
      deque_append BUFFERED_CHUNKS_BEFORE_SPEECH d x = tl d @ [x])"
proof -
  have bound: "\<forall>b \<in> set (chunk_buffers V queue). length b \<le> BUFFERED_CHUNKS_BEFORE_SPEECH"
  proof
    fix b assume "b \<in> set (chunk_buffers V queue)"
    then obtain s where "(s, b) \<in> set (loop_states V (new_segmenter V) [] queue)"
      by (auto simp: chunk_buffers_def)
    then show "length b \<le> BUFFERED_CHUNKS_BEFORE_SPEECH"
      using loop_states_buffer_bound [of "[]" s b V "new_segmenter V" queue] by simp
  qed
  have ring: "\<forall>i < length queue.
      chunk_buffers V queue ! i = lastn BUFFERED_CHUNKS_BEFORE_SPEECH (take (Suc i) queue)"
    if reads: "in_command_reads V queue = replicate (length queue) False"
  proof (intro allI impI)
    fix i assume i: "i < length queue"
    from reads have m: "map (\<lambda>(s, b). in_command V s) (loop_states V (new_segmenter V) [] queue)
        = replicate (length queue) False"
      by (simp add: in_command_reads_def)
    then have "length (loop_states V (new_segmenter V) [] queue) = length queue"
      by (metis length_map length_replicate)
    with i have "chunk_buffers V queue ! i = snd (loop_states V (new_segmenter V) [] queue ! i)"
      by (simp add: chunk_buffers_def)
    also have "\<dots> = lastn BUFFERED_CHUNKS_BEFORE_SPEECH ([] @ take (Suc i) queue)"
      using m i by (intro prespeech_buffers) simp_all
    finally show "chunk_buffers V queue ! i
        = lastn BUFFERED_CHUNKS_BEFORE_SPEECH (take (Suc i) queue)" by simp
  qed
  have evict: "deque_append BUFFERED_CHUNKS_BEFORE_SPEECH d x = tl d @ [x]"
    if "length d = BUFFERED_CHUNKS_BEFORE_SPEECH"
    using that by (cases d) (auto simp: deque_append_def BUFFERED_CHUNKS_BEFORE_SPEECH_def)
  from bound ring evict show ?thesis
    by (simp add: BUFFERED_CHUNKS_BEFORE_SPEECH_def)
qed

theorem lookback_buffer_never_exceeds_capacity_witness:
  "in_command_reads byte_vad (replicate 150 [0]) = replicate (length (replicate 150 [0::8 word])) False \<and>
   chunk_buffers byte_vad (replicate 150 [0]) ! 149 = replicate 100 [0] \<and>
   length (chunk_buffers byte_vad (replicate 150 [0]) ! 149) \<le> 100"
proof -
  have r: "in_command_reads byte_vad (replicate 150 [0])
      = replicate (length (replicate 150 [0::8 word])) False"
    using silent_reads [of "[]" 150] by (simp add: in_command_reads_def byte_vad_def)
  from lookback_buffer_never_exceeds_capacity
      [of byte_vad "replicate 150 [0]", THEN conjunct2, THEN conjunct2, THEN conjunct1, THEN mp, OF r]
  have "\<forall>i < length (replicate 150 [0::8 word]).
      chunk_buffers byte_vad (replicate 150 [0]) ! i
        = lastn BUFFERED_CHUNKS_BEFORE_SPEECH (take (Suc i) (replicate 150 [0]))" .
  then have "149 < length (replicate 150 [0::8 word]) \<longrightarrow>
      chunk_buffers byte_vad (replicate 150 [0]) ! 149
        = lastn BUFFERED_CHUNKS_BEFORE_SPEECH (take (Suc 149) (replicate 150 [0]))"
    by (rule spec)
  moreover have "take (Suc 149) (replicate 150 [0::8 word]) = replicate 150 [0]" by simp
  moreover have "lastn BUFFERED_CHUNKS_BEFORE_SPEECH (replicate 150 [0::8 word]) = replicate 100 [0]"
    by (simp add: lastn_def BUFFERED_CHUNKS_BEFORE_SPEECH_def)
  ultimately have "chunk_buffers byte_vad (replicate 150 [0]) ! 149 = replicate 100 [0]"
    by simp
  with r show ?thesis by simp
qed

text \<open>
  C3. If the first \<open>k + 1\<close> values of \<^verbatim>\<open>segmenter.in_command\<close> that the loop reads are \<open>k\<close>
  times false and then true (speech starts on chunk \<open>k + 1\<close> after \<open>k\<close> pre-speech chunks),
  and \<open>k \<le> 100\<close>, then the queue has at least \<open>k + 1\<close> chunks and the emitted sequence
  begins with exactly the first \<open>k + 1\<close> dequeued chunks in arrival order: the buffer is
  released oldest first, then the current chunk.
\<close>

theorem prespeech_chunks_released_in_arrival_order:
  assumes "k \<le> BUFFERED_CHUNKS_BEFORE_SPEECH"
    and "take (Suc k) (in_command_reads V queue) = replicate k False @ [True]"
  shows "BUFFERED_CHUNKS_BEFORE_SPEECH = 100 \<and> Suc k \<le> length queue \<and>
         (\<exists>rest. fst (segment_audio V queue) = take (Suc k) queue @ rest)"
proof -
  from assms(2) have m: "map (\<lambda>(s, b). in_command V s)
      (take (Suc k) (loop_states V (new_segmenter V) [] queue)) = replicate k False @ [True]"
    by (simp add: in_command_reads_def take_map)
  have "length (map (\<lambda>(s, b). in_command V s)
      (take (Suc k) (loop_states V (new_segmenter V) [] queue))) = length (replicate k False @ [True])"
    by (simp only: m)
  then have "length (take (Suc k) (loop_states V (new_segmenter V) [] queue)) = Suc k"
    by (simp del: take_Suc_conv_app_nth)
  then have "Suc k \<le> length (loop_states V (new_segmenter V) [] queue)" by simp
  then have len: "Suc k \<le> length queue"
    using loop_states_length_le [of V "new_segmenter V" "[]" queue] by simp
  from assms(1) have "length ([] :: bytes list) + k \<le> BUFFERED_CHUNKS_BEFORE_SPEECH" by simp
  from prespeech_flush [OF this m] obtain rest where
    "fst (segment_loop V (new_segmenter V) [] queue) = [] @ take (Suc k) queue @ rest" by blast
  then have "fst (segment_audio V queue) = take (Suc k) queue @ rest"
    by (simp add: segment_audio_def)
  with len show ?thesis by (auto simp: BUFFERED_CHUNKS_BEFORE_SPEECH_def)
qed

theorem prespeech_chunks_released_in_arrival_order_witness:
  "(2::nat) \<le> BUFFERED_CHUNKS_BEFORE_SPEECH \<and>
   take (Suc 2) (in_command_reads byte_vad [[0, 1], [0, 2], [3], [4], [0], [5]])
     = replicate 2 False @ [True] \<and>
   (\<exists>rest. fst (segment_audio byte_vad [[0, 1], [0, 2], [3], [4], [0], [5]])
       = take (Suc 2) [[0, 1], [0, 2], [3], [4], [0], [5]] @ rest) \<and>
   fst (segment_audio byte_vad [[0, 1], [0, 2], [3], [4], [0], [5]]) = [[0, 1], [0, 2], [3], [4]]"
proof -
  have h1: "(2::nat) \<le> BUFFERED_CHUNKS_BEFORE_SPEECH"
    by (simp add: BUFFERED_CHUNKS_BEFORE_SPEECH_def)
  have h2: "take (Suc 2) (in_command_reads byte_vad [[0, 1], [0, 2], [3], [4], [0], [5]])
      = replicate 2 False @ [True]"
  proof -
    have "replicate 2 False @ [True] = [False, False, True]" by (simp add: numeral_2_eq_2)
    moreover have "take (Suc 2) (in_command_reads byte_vad [[0, 1], [0, 2], [3], [4], [0], [5]])
        = [False, False, True]" by (simp add: byte_vad_run)
    ultimately show ?thesis by simp
  qed
  have v: "fst (segment_audio byte_vad [[0, 1], [0, 2], [3], [4], [0], [5]])
      = [[0, 1], [0, 2], [3], [4]]"
    by (simp add: byte_vad_run)
  note t = prespeech_chunks_released_in_arrival_order [OF h1 h2]
  from t have e: "\<exists>rest. fst (segment_audio byte_vad [[0, 1], [0, 2], [3], [4], [0], [5]])
       = take (Suc 2) [[0, 1], [0, 2], [3], [4], [0], [5]] @ rest"
    by (rule conjunct2 [THEN conjunct2])
  show ?thesis by (intro conjI h1 h2 e v)
qed

text \<open>
  C4, as stated, fails: the segmenter never reports \<^verbatim>\<open>in_command\<close> on the chunks below, but
  the second dequeued chunk is empty, so the loop ends at \<^verbatim>\<open>while chunk\<close> and the generator
  returns normally. No \<^verbatim>\<open>asyncio.TimeoutError\<close> is raised, and \<^verbatim>\<open>stt_stream\<close> does not close
  the transport.
\<close>

theorem silent_input_with_empty_chunk_counterexample:
  "in_command_reads byte_vad [[0, 1], [], [0, 3]] = [False] \<and>
   segment_audio byte_vad [[0, 1], [], [0, 3]] = ([], Inr ()) \<and>
   stt_stream byte_vad (connection_made init 7) [[0, 1], [], [0, 3]]
     = ([], Inr (), clear_audio_queue (connection_made init 7)) \<and>
   calls (clear_audio_queue (connection_made init 7)) = []"
  by (simp add: byte_vad_run stt_stream_def stt_stream_exit_def connection_made_def init_def)

text \<open>
  C4, amended. For every sequence of dequeued chunks during which no read of
  \<^verbatim>\<open>segmenter.in_command\<close> is true, \<^verbatim>\<open>_segment_audio\<close> yields no chunk: the buffered chunks
  are never emitted. If every dequeued chunk is non-empty and \<^verbatim>\<open>process\<close> returns true on
  each, the generator raises \<^verbatim>\<open>asyncio.TimeoutError\<close> when no further chunk arrives within the
  audio timeout, and \<^verbatim>\<open>stt_stream\<close> catches it, closes the transport if it is open and
  clears the queue. Otherwise the generator returns normally at the first chunk that is
  empty or on which \<^verbatim>\<open>process\<close> returns false, and \<^verbatim>\<open>stt_stream\<close> only clears the queue.
\<close>

theorem silent_input_emits_nothing:
  assumes "True \<notin> set (in_command_reads V queue)"
  shows "fst (segment_audio V queue) = [] \<and>
         snd (segment_audio V queue)
           = (if passes V (new_segmenter V) queue then Inl TimeoutError else Inr ()) \<and>
         stt_stream V s queue
           = ([], Inr (),
              clear_audio_queue
                (if passes V (new_segmenter V) queue then close_transport s else s))"
proof -
  from assms have a: "fst (segment_audio V queue) = []"
    unfolding in_command_reads_def segment_audio_def by (rule no_command_no_output)
  have b: "snd (segment_audio V queue)
      = (if passes V (new_segmenter V) queue then Inl TimeoutError else Inr ())"
    unfolding segment_audio_def by (rule segment_loop_outcome)
  from a b have "segment_audio V queue
      = ([], if passes V (new_segmenter V) queue then Inl TimeoutError else Inr ())"
    by (metis prod.collapse)
  then have c: "stt_stream V s queue
      = ([], Inr (),
         clear_audio_queue (if passes V (new_segmenter V) queue then close_transport s else s))"
    by (simp add: stt_stream_def stt_stream_exit_def)
  from a b c show ?thesis by (intro conjI)
qed

theorem silent_input_emits_nothing_witness:
  "in_command_reads byte_vad [[0, 1], [0, 2], [0, 3]] = [False, False, False] \<and>
   passes byte_vad (new_segmenter byte_vad) [[0, 1], [0, 2], [0, 3]] \<and>
   chunk_buffers byte_vad [[0, 1], [0, 2], [0, 3]] ! 2 = [[0, 1], [0, 2], [0, 3]] \<and>
   fst (segment_audio byte_vad [[0, 1], [0, 2], [0, 3]]) = [] \<and>
   snd (segment_audio byte_vad [[0, 1], [0, 2], [0, 3]]) = Inl TimeoutError \<and>
   fst (stt_stream byte_vad (connection_made init 7) [[0, 1], [0, 2], [0, 3]]) = [] \<and>
   calls (snd (snd (stt_stream byte_vad (connection_made init 7) [[0, 1], [0, 2], [0, 3]])))
     = [TransportClose 7]"
proof -
  have r: "in_command_reads byte_vad [[0, 1], [0, 2], [0, 3]] = [False, False, False]"
    by (simp add: byte_vad_run)
  then have h: "True \<notin> set (in_command_reads byte_vad [[0, 1], [0, 2], [0, 3]])"
    by simp
  have p: "passes byte_vad (new_segmenter byte_vad) [[0, 1], [0, 2], [0, 3]]"
    by (simp add: byte_vad_def)
  have b: "chunk_buffers byte_vad [[0, 1], [0, 2], [0, 3]] ! 2 = [[0, 1], [0, 2], [0, 3]]"
    by (simp add: byte_vad_run)
  have c: "calls (clear_audio_queue (close_transport (connection_made init 7))) = [TransportClose 7]"
    by (simp add: clear_audio_queue_def close_transport_def connection_made_def init_def)
  note t = silent_input_emits_nothing [OF h, of "connection_made init 7"]
  from t have t1: "fst (segment_audio byte_vad [[0, 1], [0, 2], [0, 3]]) = []"
    by (rule conjunct1)
  from t [THEN conjunct2, THEN conjunct1] p
  have t2: "snd (segment_audio byte_vad [[0, 1], [0, 2], [0, 3]]) = Inl TimeoutError"
    by (simp only: if_True)
  from t [THEN conjunct2, THEN conjunct2] p
  have t3: "stt_stream byte_vad (connection_made init 7) [[0, 1], [0, 2], [0, 3]]
      = ([], Inr (), clear_audio_queue (close_transport (connection_made init 7)))"
    by (simp only: if_True)
  have t4: "fst (stt_stream byte_vad (connection_made init 7) [[0, 1], [0, 2], [0, 3]]) = []"
    by (simp only: t3 fst_conv)
  have t5: "calls (snd (snd (stt_stream byte_vad (connection_made init 7)
        [[0, 1], [0, 2], [0, 3]]))) = [TransportClose 7]"
    by (simp only: t3 snd_conv c)
  show ?thesis by (intro conjI r p b t1 t2 t4 t5)
qed

text \<open>
  C2, as stated, fails: a dequeued chunk that is empty ends the sequence (\<^verbatim>\<open>while chunk\<close>),
  although the segmenter has not signalled the end of the command and no wait timed out.
  With a segmenter that never ends the command, the empty second chunk ends the sequence
  normally, and the third chunk is not emitted.
\<close>

theorem empty_chunk_ends_sequence_counterexample:
  "segment_audio always_in_command [[1], [], [2]] = ([[1]], Inr ()) \<and>
   process always_in_command () [] = (True, ())"
  by (simp add: segment_audio_def segment_step_def always_in_command_def)

text \<open>
  C2, amended. The sequence of \<^verbatim>\<open>_segment_audio\<close> ends normally at the first dequeued chunk
  that is empty or for which \<^verbatim>\<open>process\<close> returns false; that chunk and all later chunks are
  not emitted (the emitted chunks are those of the chunks before it). If there is no such
  chunk, the sequence ends with \<^verbatim>\<open>asyncio.TimeoutError\<close> when no further chunk arrives within
  the audio timeout. No other condition on a dequeued chunk ends the sequence.
\<close>

theorem utterance_ends_at_first_stop_or_timeout:
  "(passes V (new_segmenter V) queue \<longrightarrow> snd (segment_audio V queue) = Inl TimeoutError) \<and>
   (\<not> passes V (new_segmenter V) queue \<longrightarrow>
      (\<exists>pre c post. queue = pre @ c # post \<and> passes V (new_segmenter V) pre \<and>
         (c = [] \<or> \<not> fst (process V (feed V (new_segmenter V) pre) c)))) \<and>
   (\<forall>pre c post. queue = pre @ c # post \<and> passes V (new_segmenter V) pre \<and>
         (c = [] \<or> \<not> fst (process V (feed V (new_segmenter V) pre) c)) \<longrightarrow>
      segment_audio V queue = (fst (segment_audio V pre), Inr ()))"
proof (intro conjI impI allI)
  assume "passes V (new_segmenter V) queue"
  then show "snd (segment_audio V queue) = Inl TimeoutError"
    unfolding segment_audio_def by (rule passes_timeout)
next
  assume "\<not> passes V (new_segmenter V) queue"
  then show "\<exists>pre c post. queue = pre @ c # post \<and> passes V (new_segmenter V) pre \<and>
         (c = [] \<or> \<not> fst (process V (feed V (new_segmenter V) pre) c))"
    by (rule passes_or_stops)
next
  fix pre c post
  assume a: "queue = pre @ c # post \<and> passes V (new_segmenter V) pre \<and>
         (c = [] \<or> \<not> fst (process V (feed V (new_segmenter V) pre) c))"
  then show "segment_audio V queue = (fst (segment_audio V pre), Inr ())"
    unfolding segment_audio_def using stop_after_passes [of V "new_segmenter V" pre c "[]" post]
    by simp
qed

theorem utterance_ends_at_first_stop_or_timeout_witness:
  "passes byte_vad (new_segmenter byte_vad) [[0], [1], [2]] \<and>
   snd (segment_audio byte_vad [[0], [1], [2]]) = Inl TimeoutError \<and>
   \<not> fst (process byte_vad (feed byte_vad (new_segmenter byte_vad) [[0], [1], [2]]) [0, 9]) \<and>
   segment_audio byte_vad ([[0], [1], [2]] @ [0, 9] # [[5]])
     = (fst (segment_audio byte_vad [[0], [1], [2]]), Inr ()) \<and>
   segment_audio byte_vad ([[0], [1], [2]] @ [] # [[5]])
     = (fst (segment_audio byte_vad [[0], [1], [2]]), Inr ()) \<and>
   fst (segment_audio byte_vad [[0], [1], [2]]) = [[0], [1], [2]]"
proof -
  have p: "passes byte_vad (new_segmenter byte_vad) [[0], [1], [2]]"
    by (simp add: byte_vad_def)
  have st: "\<not> fst (process byte_vad (feed byte_vad (new_segmenter byte_vad) [[0], [1], [2]]) [0, 9])"
    by (simp add: byte_vad_def)
  have v: "fst (segment_audio byte_vad [[0], [1], [2]]) = [[0], [1], [2]]"
    by (simp add: byte_vad_run)
  have t: "snd (segment_audio byte_vad [[0], [1], [2]]) = Inl TimeoutError"
    using utterance_ends_at_first_stop_or_timeout
      [of byte_vad "[[0], [1], [2]]", THEN conjunct1] p by (rule mp)
  note u1 = utterance_ends_at_first_stop_or_timeout
      [of byte_vad "[[0], [1], [2]] @ [0, 9] # [[5]]", THEN conjunct2, THEN conjunct2,
        THEN spec, THEN spec, THEN spec, of "[[0], [1], [2]]" "[0, 9]" "[[5]]"]
  have e1: "segment_audio byte_vad ([[0], [1], [2]] @ [0, 9] # [[5]])
     = (fst (segment_audio byte_vad [[0], [1], [2]]), Inr ())"
    by (rule u1 [THEN mp]) (intro conjI refl p disjI2 st)
  note u2 = utterance_ends_at_first_stop_or_timeout
      [of byte_vad "[[0], [1], [2]] @ [] # [[5]]", THEN conjunct2, THEN conjunct2,
        THEN spec, THEN spec, THEN spec, of "[[0], [1], [2]]" "[]" "[[5]]"]
  have e2: "segment_audio byte_vad ([[0], [1], [2]] @ [] # [[5]])
     = (fst (segment_audio byte_vad [[0], [1], [2]]), Inr ())"
    by (rule u2 [THEN mp]) (intro conjI refl p disjI1)
  show ?thesis by (intro conjI p st v t e1 e2)
qed

text \<open>
  C1. In every state that a call can reach from \<^verbatim>\<open>__init__\<close> by any sequence of events, the
  event loop holds at most one pipeline run, and it holds none exactly when the run slot
  \<^verbatim>\<open>_pipeline_task\<close> is empty. \<^verbatim>\<open>on_chunk\<close> creates no task when the run slot is occupied.
  The run slot is empty after every way \<^verbatim>\<open>_run_pipeline\<close> can finish: the pipeline returned,
  the pipeline timeout expired, or the pipeline raised another exception; and when a run
  finishes, no run is left.
\<close>

theorem at_most_one_active_run:
  "length (active_runs (run R init evs)) \<le> 1 \<and>
   (pipeline_task (run R init evs) = None \<longleftrightarrow> active_runs (run R init evs) = []) \<and>
   (pipeline_task s \<noteq> None \<longrightarrow> hass_tasks (on_chunk s audio_bytes) = hass_tasks s) \<and>
   pipeline_task (snd (run_pipeline_exit s (Inr ()))) = None \<and>
   pipeline_task (snd (run_pipeline_exit s (Inl TimeoutError))) = None \<and>
   pipeline_task (snd (run_pipeline_exit s (Inl e))) = None \<and>
   (running_run (run R init evs) t \<longrightarrow>
      active_runs (step R (run R init evs) (RunExit t r)) = [] \<and>
      pipeline_task (step R (run R init evs) (RunExit t r)) = None)"
proof -
  have inv: "slot_inv (run R init evs)"
    using slot_inv_init by (rule slot_inv_run)
  note a = slot_inv_active_runs [OF inv]
  have b: "pipeline_task s \<noteq> None \<longrightarrow> hass_tasks (on_chunk s audio_bytes) = hass_tasks s"
    by (simp add: on_chunk_busy)
  have c: "running_run (run R init evs) t \<longrightarrow>
      active_runs (step R (run R init evs) (RunExit t r)) = [] \<and>
      pipeline_task (step R (run R init evs) (RunExit t r)) = None"
    using run_exit_frees_slot [OF inv] by blast
  from a b c show ?thesis by (simp add: run_pipeline_exit_slot)
qed

theorem at_most_one_active_run_witness:
  "running_run (run wav_resolver init
      [ConnectionMade 7, OnChunk [1], OnChunk [2], TaskStart 0, OnChunk [3]]) 0 \<and>
   pipeline_task (run wav_resolver init
      [ConnectionMade 7, OnChunk [1], OnChunk [2], TaskStart 0, OnChunk [3]]) \<noteq> None \<and>
   length (active_runs (run wav_resolver init
      [ConnectionMade 7, OnChunk [1], OnChunk [2], TaskStart 0, OnChunk [3]])) = 1 \<and>
   active_runs (step wav_resolver (run wav_resolver init
      [ConnectionMade 7, OnChunk [1], OnChunk [2], TaskStart 0, OnChunk [3]])
      (RunExit 0 (Inl (PipelineError ''stt failed'')))) = [] \<and>
   pipeline_task (step wav_resolver (run wav_resolver init
      [ConnectionMade 7, OnChunk [1], OnChunk [2], TaskStart 0, OnChunk [3]])
      (RunExit 0 (Inl (PipelineError ''stt failed'')))) = None"
proof -
  let ?s = "run wav_resolver init
      [ConnectionMade 7, OnChunk [1], OnChunk [2], TaskStart 0, OnChunk [3]]"
  have r: "running_run ?s 0"
    unfolding burst_state by (simp add: running_run_def find_task_def)
  have p: "pipeline_task ?s \<noteq> None"
    unfolding burst_state by simp
  have l: "length (active_runs ?s) = 1"
    unfolding burst_state by (simp add: active_runs_def)
  note t = at_most_one_active_run
    [of wav_resolver "[ConnectionMade 7, OnChunk [1], OnChunk [2], TaskStart 0, OnChunk [3]]"
        ?s "[4]" "PipelineError ''stt failed''" 0 "Inl (PipelineError ''stt failed'')"]
  from t have "running_run ?s 0 \<longrightarrow>
      active_runs (step wav_resolver ?s (RunExit 0 (Inl (PipelineError ''stt failed'')))) = [] \<and>
      pipeline_task (step wav_resolver ?s (RunExit 0 (Inl (PipelineError ''stt failed'')))) = None"
    by (elim conjE)
  with r have e: "active_runs (step wav_resolver ?s (RunExit 0 (Inl (PipelineError ''stt failed'')))) = [] \<and>
      pipeline_task (step wav_resolver ?s (RunExit 0 (Inl (PipelineError ''stt failed'')))) = None"
    by (rule rev_mp)
  from r p l e show ?thesis by (intro conjI) (elim conjE, assumption)+
qed

text \<open>
  C5. When the pipeline timeout expires, \<^verbatim>\<open>_run_pipeline\<close> swallows the exception, closes the
  transport once if one is open (one \<^verbatim>\<open>close\<close> call on it; none if it is already
  \<^verbatim>\<open>None\<close>), sets \<^verbatim>\<open>self.transport\<close> to \<^verbatim>\<open>None\<close> and empties the run slot. A second timeout
  afterwards adds no \<^verbatim>\<open>close\<close> call, and when the audio timeout of \<^verbatim>\<open>stt_stream\<close> has closed
  the transport before, the pipeline timeout does not close it again. After the exit no run
  is left in the event loop.
\<close>

theorem pipeline_timeout_closes_transport_once:
  "fst (run_pipeline_exit s (Inl TimeoutError)) = Inr () \<and>
   pipeline_task (snd (run_pipeline_exit s (Inl TimeoutError))) = None \<and>
   transport (snd (run_pipeline_exit s (Inl TimeoutError))) = None \<and>
   calls (snd (run_pipeline_exit s (Inl TimeoutError)))
     = calls s @ (case transport s of None \<Rightarrow> [] | Some tr \<Rightarrow> [TransportClose tr]) \<and>
   calls (snd (run_pipeline_exit (snd (run_pipeline_exit s (Inl TimeoutError))) (Inl TimeoutError)))
     = calls (snd (run_pipeline_exit s (Inl TimeoutError))) \<and>
   calls (snd (run_pipeline_exit (snd (stt_stream_exit s (Inl TimeoutError))) (Inl TimeoutError)))
     = calls s @ (case transport s of None \<Rightarrow> [] | Some tr \<Rightarrow> [TransportClose tr]) \<and>
   (running_run (run R init evs) t \<longrightarrow>
      active_runs (step R (run R init evs) (RunExit t (Inl TimeoutError))) = [] \<and>
      pipeline_task (step R (run R init evs) (RunExit t (Inl TimeoutError))) = None)"
proof -
  have inv: "slot_inv (run R init evs)"
    using slot_inv_init by (rule slot_inv_run)
  have c: "running_run (run R init evs) t \<longrightarrow>
      active_runs (step R (run R init evs) (RunExit t (Inl TimeoutError))) = [] \<and>
      pipeline_task (step R (run R init evs) (RunExit t (Inl TimeoutError))) = None"
    using run_exit_frees_slot [OF inv] by blast
  have l: "fst (run_pipeline_exit s (Inl TimeoutError)) = Inr ()"
    "pipeline_task (snd (run_pipeline_exit s (Inl TimeoutError))) = None"
    "transport (snd (run_pipeline_exit s (Inl TimeoutError))) = None"
    "calls (snd (run_pipeline_exit s (Inl TimeoutError)))
     = calls s @ (case transport s of None \<Rightarrow> [] | Some tr \<Rightarrow> [TransportClose tr])"
    "calls (snd (run_pipeline_exit (snd (run_pipeline_exit s (Inl TimeoutError))) (Inl TimeoutError)))
     = calls (snd (run_pipeline_exit s (Inl TimeoutError)))"
    "calls (snd (run_pipeline_exit (snd (stt_stream_exit s (Inl TimeoutError))) (Inl TimeoutError)))
     = calls s @ (case transport s of None \<Rightarrow> [] | Some tr \<Rightarrow> [TransportClose tr])"
    by (simp_all add: run_pipeline_exit_def stt_stream_exit_def close_transport_def
        clear_audio_queue_def split: option.splits)
  from l c show ?thesis by (intro conjI)
qed

theorem pipeline_timeout_closes_transport_once_witness:
  "running_run (run wav_resolver init
      [ConnectionMade 7, OnChunk [1], OnChunk [2], TaskStart 0, OnChunk [3]]) 0 \<and>
   calls (step wav_resolver (run wav_resolver init
      [ConnectionMade 7, OnChunk [1], OnChunk [2], TaskStart 0, OnChunk [3]])
      (RunExit 0 (Inl TimeoutError))) = [PipelineFromAudioStream PyNone, TransportClose 7] \<and>
   active_runs (step wav_resolver (run wav_resolver init
      [ConnectionMade 7, OnChunk [1], OnChunk [2], TaskStart 0, OnChunk [3]])
      (RunExit 0 (Inl TimeoutError))) = [] \<and>
   pipeline_task (step wav_resolver (run wav_resolver init
      [ConnectionMade 7, OnChunk [1], OnChunk [2], TaskStart 0, OnChunk [3]])
      (RunExit 0 (Inl TimeoutError))) = None"
proof -
  let ?s = "run wav_resolver init
      [ConnectionMade 7, OnChunk [1], OnChunk [2], TaskStart 0, OnChunk [3]]"
  have r: "running_run ?s 0"
    unfolding burst_state by (simp add: running_run_def find_task_def)
  note t = pipeline_timeout_closes_transport_once
    [of ?s wav_resolver "[ConnectionMade 7, OnChunk [1], OnChunk [2], TaskStart 0, OnChunk [3]]" 0]
  from t have k: "calls (snd (run_pipeline_exit ?s (Inl TimeoutError)))
     = calls ?s @ (case transport ?s of None \<Rightarrow> [] | Some tr \<Rightarrow> [TransportClose tr])"
    by (elim conjE)
  have "calls (step wav_resolver ?s (RunExit 0 (Inl TimeoutError)))
      = calls (snd (run_pipeline_exit ?s (Inl TimeoutError)))"
    using r by (simp add: remove_task_def)
  also note k
  also have "calls ?s @ (case transport ?s of None \<Rightarrow> [] | Some tr \<Rightarrow> [TransportClose tr])
      = [PipelineFromAudioStream PyNone, TransportClose 7]"
    unfolding burst_state by simp
  finally have c: "calls (step wav_resolver ?s (RunExit 0 (Inl TimeoutError)))
      = [PipelineFromAudioStream PyNone, TransportClose 7]" .
  from t have "running_run ?s 0 \<longrightarrow>
      active_runs (step wav_resolver ?s (RunExit 0 (Inl TimeoutError))) = [] \<and>
      pipeline_task (step wav_resolver ?s (RunExit 0 (Inl TimeoutError))) = None"
    by (elim conjE)
  with r have e: "active_runs (step wav_resolver ?s (RunExit 0 (Inl TimeoutError))) = [] \<and>
      pipeline_task (step wav_resolver ?s (RunExit 0 (Inl TimeoutError))) = None"
    by (rule rev_mp)
  from r c e show ?thesis by (intro conjI) (elim conjE, assumption)+
qed

text \<open>
  C6, as stated, fails: the callback stores the identifier of every \<^verbatim>\<open>INTENT_END\<close> event, so
  an invocation that follows a second \<^verbatim>\<open>INTENT_END\<close> event passes the second identifier, not
  the first. Three runs on one call: the third is invoked after the event that carried
  \<^verbatim>\<open>abc123\<close>, and it passes \<^verbatim>\<open>xyz789\<close>.
\<close>

theorem later_intent_end_replaces_conversation_id_counterexample:
  "invocations (run wav_resolver init
     [OnChunk [1], TaskStart 0, Callback 0 (intent_end_event ''abc123''), RunExit 0 (Inr ()),
      OnChunk [1], TaskStart 1, Callback 1 (intent_end_event ''xyz789''), RunExit 1 (Inr ()),
      OnChunk [1], TaskStart 2])
   = [PyNone, PyStr ''abc123'', PyStr ''xyz789'']"
  by (simp add: session_eval intent_end_event_def)

text \<open>
  C6, amended. If an \<^verbatim>\<open>INTENT_END\<close> event with a non-empty payload that holds the
  conversation identifier \<open>c\<close> is delivered to the callback during a run, the callback
  stores \<open>c\<close>, and every pipeline invocation on the same call after it passes \<open>c\<close> as long
  as no further \<^verbatim>\<open>INTENT_END\<close> event with a non-empty payload is delivered; the first
  invocation of a call passes \<^verbatim>\<open>None\<close>.
\<close>

theorem conversation_id_reused_until_replaced:
  assumes "running_run s t"
    and "event_type ev = INTENT_END" and "event_data ev = Some d" and "d \<noteq> []"
    and "getitem (PyDict d) ''intent_output'' = Inr intent_output"
    and "getitem intent_output ''conversation_id'' = Inr c"
    and "\<forall>e \<in> set evs. \<not> stores_conversation_id e"
  shows "conversation_id (step R s (Callback t ev)) = c \<and>
         (\<exists>n. invocations (run R (step R s (Callback t ev)) evs)
                 = invocations s @ replicate n c) \<and>
         (invocations (run R init evs') = [] \<or> hd (invocations (run R init evs')) = PyNone)"
proof -
  have cb: "event_callback s ev = Inr (s\<lparr>conversation_id := c\<rparr>)"
    using assms(2-6) by (simp add: event_callback_def)
  with assms(1) have st: "step R s (Callback t ev) = s\<lparr>conversation_id := c\<rparr>" by simp
  then have a: "conversation_id (step R s (Callback t ev)) = c" by simp
  from st have i: "invocations (step R s (Callback t ev)) = invocations s"
    by (simp add: invocations_def)
  from run_reuses_conversation_id [OF assms(7), of R "step R s (Callback t ev)"] a i
  have b: "\<exists>n. invocations (run R (step R s (Callback t ev)) evs)
                 = invocations s @ replicate n c" by simp
  have "first_run_inv (run R init evs')"
    using first_run_inv_init by (rule first_run_inv_run)
  then have f: "invocations (run R init evs') = [] \<or> hd (invocations (run R init evs')) = PyNone"
    by (auto simp: first_run_inv_def split: if_splits)
  from a b f show ?thesis by (intro conjI)
qed

theorem conversation_id_reused_until_replaced_witness:
  "running_run (run wav_resolver init [OnChunk [1], TaskStart 0]) 0 \<and>
   filter stores_conversation_id
     [RunExit 0 (Inr ()), OnChunk [2], TaskStart 1,
      Callback 1 (tts_end_event ''media-1''), RunExit 1 (Inr ()),
      OnChunk [3], TaskStart 3] = [] \<and>
   conversation_id (step wav_resolver (run wav_resolver init [OnChunk [1], TaskStart 0])
                      (Callback 0 (intent_end_event ''abc123''))) = PyStr ''abc123'' \<and>
   (\<exists>n. invocations (run wav_resolver
            (step wav_resolver (run wav_resolver init [OnChunk [1], TaskStart 0])
               (Callback 0 (intent_end_event ''abc123'')))
            [RunExit 0 (Inr ()), OnChunk [2], TaskStart 1,
             Callback 1 (tts_end_event ''media-1''), RunExit 1 (Inr ()),
             OnChunk [3], TaskStart 3])
      = invocations (run wav_resolver init [OnChunk [1], TaskStart 0])
          @ replicate n (PyStr ''abc123'')) \<and>
   invocations (run wav_resolver
            (step wav_resolver (run wav_resolver init [OnChunk [1], TaskStart 0])
               (Callback 0 (intent_end_event ''abc123'')))
            [RunExit 0 (Inr ()), OnChunk [2], TaskStart 1,
             Callback 1 (tts_end_event ''media-1''), RunExit 1 (Inr ()),
             OnChunk [3], TaskStart 3])
     = [PyNone, PyStr ''abc123'', PyStr ''abc123'']"
proof -
  let ?s = "run wav_resolver init [OnChunk [1], TaskStart 0]"
  let ?evs = "[RunExit 0 (Inr ()), OnChunk [2], TaskStart 1,
               Callback 1 (tts_end_event ''media-1''), RunExit 1 (Inr ()),
               OnChunk [3], TaskStart 3]"
  have h1: "running_run ?s 0" by (simp add: session_eval)
  have h2: "event_type (intent_end_event ''abc123'') = INTENT_END"
    and h3: "event_data (intent_end_event ''abc123'')
      = Some [(''intent_output'',
               PyDict [(''response'', PyDict []), (''conversation_id'', PyStr ''abc123'')])]"
    by (simp_all add: intent_end_event_def)
  have h4: "[(''intent_output'',
       PyDict [(''response'', PyDict []), (''conversation_id'', PyStr ''abc123'')])] \<noteq> []"
    by simp
  have h5: "getitem (PyDict [(''intent_output'',
       PyDict [(''response'', PyDict []), (''conversation_id'', PyStr ''abc123'')])])
       ''intent_output''
     = Inr (PyDict [(''response'', PyDict []), (''conversation_id'', PyStr ''abc123'')])"
    by simp
  have h6: "getitem (PyDict [(''response'', PyDict []), (''conversation_id'', PyStr ''abc123'')])
       ''conversation_id'' = Inr (PyStr ''abc123'')"
    by simp
  have h7: "\<forall>e \<in> set ?evs. \<not> stores_conversation_id e"
    by (simp add: tts_end_event_def)
  note t = conversation_id_reused_until_replaced [OF h1 h2 h3 h4 h5 h6 h7, of wav_resolver "[]"]
  from t have a: "conversation_id (step wav_resolver ?s (Callback 0 (intent_end_event ''abc123'')))
      = PyStr ''abc123''"
    by (rule conjunct1)
  from t have b: "\<exists>n. invocations (run wav_resolver
        (step wav_resolver ?s (Callback 0 (intent_end_event ''abc123''))) ?evs)
      = invocations ?s @ replicate n (PyStr ''abc123'')"
    by (rule conjunct2 [THEN conjunct1])
  have v: "invocations (run wav_resolver
        (step wav_resolver ?s (Callback 0 (intent_end_event ''abc123''))) ?evs)
      = [PyNone, PyStr ''abc123'', PyStr ''abc123'']"
    by (simp add: session_eval intent_end_event_def tts_end_event_def)
  have f: "filter stores_conversation_id ?evs = []"
    by (simp add: tts_end_event_def)
  from h1 f a b v show ?thesis by (intro conjI)
qed

text \<open>
  C8. A \<^verbatim>\<open>TTS_END\<close> event whose payload holds \<^verbatim>\<open>tts_output.media_id\<close> makes the callback create
  one background task for \<^verbatim>\<open>_send_media(media_id)\<close> and nothing else. When that task runs
  with an open transport and the resolver returns audio bytes, it asks the resolver for
  the media and calls \<^verbatim>\<open>send_audio\<close> with these bytes and rate 16000, width 2, channels 1.
  When the transport is \<^verbatim>\<open>None\<close> it returns at once: no call, no exception, the session
  unchanged. The created task is the one the event loop starts under the new handle.
\<close>

theorem tts_end_sends_media_in_fixed_format:
  assumes "event_type ev = TTS_END" and "event_data ev = Some d" and "d \<noteq> []"
    and "getitem (PyDict d) ''tts_output'' = Inr tts_output"
    and "getitem tts_output ''media_id'' = Inr media_id"
  shows "event_callback s ev
           = Inr (snd (async_create_background_task s (SendMedia media_id) ''voip_pipeline_tts'')) \<and>
         (\<forall>tr extension audio_bytes.
            transport s' = Some tr \<and> resolve media_id = Inr (extension, audio_bytes) \<longrightarrow>
            send_media resolve s' media_id
              = (Inr (), s'\<lparr>calls := calls s' @ [GetMediaSourceAudio media_id,
                                                    SendAudio audio_bytes 16000 2 1]\<rparr>)) \<and>
         (transport s' = None \<longrightarrow> send_media resolve s' media_id = (Inr (), s')) \<and>
         (slot_inv s \<longrightarrow>
            step resolve (snd (async_create_background_task s (SendMedia media_id)
                                 ''voip_pipeline_tts'')) (TaskStart (hass_next_task s))
              = remove_task
                  (snd (send_media resolve
                          (snd (async_create_background_task s (SendMedia media_id)
                                  ''voip_pipeline_tts'')) media_id))
                  (hass_next_task s))"
proof -
  have a: "event_callback s ev
      = Inr (snd (async_create_background_task s (SendMedia media_id) ''voip_pipeline_tts''))"
    using assms by (simp add: event_callback_def)
  have b: "\<forall>tr extension audio_bytes.
            transport s' = Some tr \<and> resolve media_id = Inr (extension, audio_bytes) \<longrightarrow>
            send_media resolve s' media_id
              = (Inr (), s'\<lparr>calls := calls s' @ [GetMediaSourceAudio media_id,
                                                    SendAudio audio_bytes 16000 2 1]\<rparr>)"
    by (simp add: send_media_def)
  have c: "transport s' = None \<longrightarrow> send_media resolve s' media_id = (Inr (), s')"
    by (simp add: send_media_def)
  have d: "step resolve (snd (async_create_background_task s (SendMedia media_id)
                                 ''voip_pipeline_tts'')) (TaskStart (hass_next_task s))
              = remove_task
                  (snd (send_media resolve
                          (snd (async_create_background_task s (SendMedia media_id)
                                  ''voip_pipeline_tts'')) media_id))
                  (hass_next_task s)" if inv: "slot_inv s"
  proof -
    from inv have "\<forall>k \<in> set (hass_tasks s). task_id k \<noteq> hass_next_task s"
      by (auto simp: slot_inv_def)
    then have "find (\<lambda>k. task_id k = hass_next_task s) (hass_tasks s) = None"
      by (auto simp: find_None_iff)
    then have "find_task (snd (async_create_background_task s (SendMedia media_id)
          ''voip_pipeline_tts'')) (hass_next_task s)
        = Some \<lparr>task_id = hass_next_task s, task_coro = SendMedia media_id,
                task_name = ''voip_pipeline_tts'', task_started = False\<rparr>"
      by (simp add: find_task_def async_create_background_task_def find_append)
    then show ?thesis by simp
  qed
  from a b c d show ?thesis by (intro conjI impI) simp_all
qed

theorem tts_end_sends_media_in_fixed_format_witness:
  "event_callback (connection_made init 7) (tts_end_event ''media-1'')
     = Inr (snd (async_create_background_task (connection_made init 7)
                   (SendMedia (PyStr ''media-1'')) ''voip_pipeline_tts'')) \<and>
   send_media wav_resolver (connection_made init 7) (PyStr ''media-1'')
     = (Inr (), (connection_made init 7)
          \<lparr>calls := calls (connection_made init 7) @
             [GetMediaSourceAudio (PyStr ''media-1''), SendAudio [1, 2, 3] 16000 2 1]\<rparr>) \<and>
   send_media wav_resolver init (PyStr ''media-1'') = (Inr (), init)"
proof -
  have h1: "event_type (tts_end_event ''media-1'') = TTS_END"
    and h2: "event_data (tts_end_event ''media-1'')
      = Some [(''tts_output'',
               PyDict [(''media_id'', PyStr ''media-1''), (''mime_type'', PyStr ''audio/raw'')])]"
    by (simp_all add: tts_end_event_def)
  have h3: "[(''tts_output'',
       PyDict [(''media_id'', PyStr ''media-1''), (''mime_type'', PyStr ''audio/raw'')])] \<noteq> []"
    by simp
  have h4: "getitem (PyDict [(''tts_output'',
       PyDict [(''media_id'', PyStr ''media-1''), (''mime_type'', PyStr ''audio/raw'')])])
       ''tts_output''
     = Inr (PyDict [(''media_id'', PyStr ''media-1''), (''mime_type'', PyStr ''audio/raw'')])"
    by simp
  have h5: "getitem (PyDict [(''media_id'', PyStr ''media-1''), (''mime_type'', PyStr ''audio/raw'')])
       ''media_id'' = Inr (PyStr ''media-1'')"
    by simp
  note t1 = tts_end_sends_media_in_fixed_format
    [OF h1 h2 h3 h4 h5, of "connection_made init 7" "connection_made init 7" wav_resolver]
  note t2 = tts_end_sends_media_in_fixed_format
    [OF h1 h2 h3 h4 h5, of "connection_made init 7" init wav_resolver]
  from t1 have a: "event_callback (connection_made init 7) (tts_end_event ''media-1'')
     = Inr (snd (async_create_background_task (connection_made init 7)
                   (SendMedia (PyStr ''media-1'')) ''voip_pipeline_tts''))"
    by (rule conjunct1)
  have tr: "transport (connection_made init 7) = Some 7 \<and>
      wav_resolver (PyStr ''media-1'') = Inr (''raw'', [1, 2, 3])"
    by (simp add: connection_made_def wav_resolver_def)
  from t1 [THEN conjunct2, THEN conjunct1, THEN spec, THEN spec, THEN spec, THEN mp, OF tr]
  have b: "send_media wav_resolver (connection_made init 7) (PyStr ''media-1'')
     = (Inr (), (connection_made init 7)
          \<lparr>calls := calls (connection_made init 7) @
             [GetMediaSourceAudio (PyStr ''media-1''), SendAudio [1, 2, 3] 16000 2 1]\<rparr>)" .
  have tn: "transport init = None" by (simp add: init_def)
  from t2 [THEN conjunct2, THEN conjunct2, THEN conjunct1, THEN mp, OF tn]
  have c: "send_media wav_resolver init (PyStr ''media-1'') = (Inr (), init)" .
  from a b c show ?thesis by (intro conjI)
qed

end
